theory Spec2Isabelle
  imports Complex_Main "HOL-Library.Multiset"
begin

section \<open>The task scheduler of Luculentus\<close>

text \<open>
  A shallow embedding of \<^verbatim>\<open>TaskScheduler.cpp\<close>. The scheduler is a monitor: every
  member function runs under one mutex, so a call of \<^verbatim>\<open>GetNewTask\<close> is one atomic
  step on the scheduler's fields, and the model is a state record passed through the
  functions.

  What is modelled as what:
  \<^item> \<^verbatim>\<open>std::queue<int>\<close> is an \<open>int list\<close> whose head is the front of the queue;
    \<^verbatim>\<open>push\<close> appends at the end, \<^verbatim>\<open>pop\<close> drops the head. \<^verbatim>\<open>front()\<close> of an
    empty queue is undefined behaviour and is the error \<open>EmptyQueue\<close> of the model.
  \<^item> \<^verbatim>\<open>size_t\<close> counts are \<open>nat\<close>, the \<^verbatim>\<open>int\<close> unit indices are \<open>int\<close>.
  \<^item> The counter \<^verbatim>\<open>completedTraces\<close>, declared in \<^verbatim>\<open>TaskScheduler.h\<close>, is a
    \<open>nat\<close>: it is only incremented and reset.
  \<^item> \<^verbatim>\<open>steady_clock::time_point\<close> is an \<open>int\<close> of clock ticks, one tick being a
    nanosecond. Each reading of the clock is an argument of the function that reads it.
  \<^item> The single-precision quotient \<^verbatim>\<open>completedTraces * 1000.0f / ms.count()\<close> is
    computed over the reals: a measurement is the exact quotient, and its rounding to
    single precision is not modelled. A division by zero milliseconds gives what IEEE
    division gives, infinity or, for zero completed traces, not-a-number.
  \<^item> The lines written to \<^verbatim>\<open>std::cout\<close> and the contents of the trace, plot, gather
    and tonemap units are not part of the model.
\<close>

subsection \<open>Tasks\<close>

text \<open>
  \<^verbatim>\<open>Task.h\<close> declares the task type, the unit \<^verbatim>\<open>unit\<close> and the vector
  \<^verbatim>\<open>otherUnits\<close>. The constructors of tasks below assign \<^verbatim>\<open>unit\<close> only for trace
  and plot tasks; what the member holds otherwise is the argument \<open>u0\<close> of the
  functions that build such a task.
\<close>

datatype TaskType = Sleep | Trace | Plot | Gather | Tonemap

record Task =
  type :: TaskType
  unit :: int
  otherUnits :: "int list"

subsection \<open>Scheduler state\<close>

datatype measurement = Quotient real | PlusInfinity | NotANumber

datatype error = SignedOverflow | EmptyQueue

record TaskScheduler =
  numberOfTraceUnits :: nat
  numberOfPlotUnits :: nat
  availableTraceUnits :: "int list"
  doneTraceUnits :: "int list"
  availablePlotUnits :: "int list"
  donePlotUnits :: "int list"
  gatherUnitAvailable :: bool
  tonemapUnitAvailable :: bool
  imageChanged :: bool
  lastTonemapTime :: int
  completedTraces :: nat
  performance :: "measurement list"

definition tonemappingInterval :: int where
  "tonemappingInterval = 30 * 1000000000"

subsection \<open>Construction\<close>

text \<open>
  \<^verbatim>\<open>for (int i = 0; i < (int)n; i++) queue.push(i);\<close>
\<close>

function push_indices :: "int \<Rightarrow> int \<Rightarrow> int list \<Rightarrow> int list" where
  "push_indices i n q = (if i < n then push_indices (i + 1) n (q @ [i]) else q)"
  by pat_completeness auto
termination
  by (relation "measure (\<lambda>(i, n, q). nat (n - i))") auto

declare push_indices.simps [simp del]

text \<open>
  \<^verbatim>\<open>numberOfThreads * 3\<close> is a product of 32-bit \<^verbatim>\<open>int\<close>s: outside the range of
  \<^verbatim>\<open>int\<close> it is undefined behaviour. \<^verbatim>\<open>numberOfThreads / 2\<close> truncates towards zero.
  The argument \<open>now\<close> is the reading of the clock at the end of the constructor.
  The units themselves, their random seeds and a failure to allocate them are outside the
  model.
\<close>

definition int_div2 :: "int \<Rightarrow> int" where
  "int_div2 k = (if k < 0 then - ((- k) div 2) else k div 2)"

definition TaskScheduler :: "int \<Rightarrow> int \<Rightarrow> error + TaskScheduler" where
  "TaskScheduler numberOfThreads now =
     (if numberOfThreads * 3 < - 2147483648 \<or> 2147483647 < numberOfThreads * 3
      then Inl SignedOverflow
      else
        let nT = nat (max 1 (numberOfThreads * 3));
            nP = nat (max 1 (int_div2 numberOfThreads))
        in Inr \<lparr> numberOfTraceUnits = nT,
                 numberOfPlotUnits = nP,
                 availableTraceUnits = push_indices 0 (int nT) [],
                 doneTraceUnits = [],
                 availablePlotUnits = push_indices 0 (int nP) [],
                 donePlotUnits = [],
                 gatherUnitAvailable = True,
                 tonemapUnitAvailable = True,
                 imageChanged = False,
                 lastTonemapTime = now,
                 completedTraces = 0,
                 performance = [] \<rparr>)"

subsection \<open>Creating tasks\<close>

definition CreateSleepTask :: "int \<Rightarrow> Task" where
  "CreateSleepTask u0 = \<lparr> type = Sleep, unit = u0, otherUnits = [] \<rparr>"

definition CreateTraceTask :: "TaskScheduler \<Rightarrow> error + Task \<times> TaskScheduler" where
  "CreateTraceTask s =
     (case availableTraceUnits s of
        [] \<Rightarrow> Inl EmptyQueue
      | u # rest \<Rightarrow>
          Inr (\<lparr> type = Trace, unit = u, otherUnits = [] \<rparr>,
               s\<lparr> availableTraceUnits := rest \<rparr>))"

text \<open>
  The number \<^verbatim>\<open>n\<close> of trace units that \<^verbatim>\<open>CreatePlotTask\<close> takes when
  \<^verbatim>\<open>done\<close> of them are done.
\<close>

definition plot_count :: "nat \<Rightarrow> nat" where
  "plot_count done = min done (max 1 (done div 2))"

text \<open>
  The loop of \<^verbatim>\<open>CreatePlotTask\<close>: \<open>n\<close> times, the front of the queue is appended to
  \<^verbatim>\<open>otherUnits\<close> and popped.
\<close>

fun take_done :: "nat \<Rightarrow> int list \<Rightarrow> int list \<Rightarrow> error + int list \<times> int list" where
  "take_done 0 others q = Inr (others, q)"
| "take_done (Suc i) others [] = Inl EmptyQueue"
| "take_done (Suc i) others (u # q) = take_done i (others @ [u]) q"

definition CreatePlotTask :: "TaskScheduler \<Rightarrow> error + Task \<times> TaskScheduler" where
  "CreatePlotTask s =
     (case availablePlotUnits s of
        [] \<Rightarrow> Inl EmptyQueue
      | u # rest \<Rightarrow>
          let done = length (doneTraceUnits s);
              n = plot_count done
          in case take_done n [] (doneTraceUnits s) of
               Inl e \<Rightarrow> Inl e
             | Inr (others, q) \<Rightarrow>
                 Inr (\<lparr> type = Plot, unit = u, otherUnits = others \<rparr>,
                      s\<lparr> availablePlotUnits := rest, doneTraceUnits := q \<rparr>))"

text \<open>
  The loop of \<^verbatim>\<open>CreateGatherTask\<close>: while the queue is not empty, its front is
  appended to \<^verbatim>\<open>otherUnits\<close> and popped.
\<close>

fun drain :: "int list \<Rightarrow> int list \<Rightarrow> int list \<times> int list" where
  "drain others [] = (others, [])"
| "drain others (u # q) = drain (others @ [u]) q"

definition CreateGatherTask :: "int \<Rightarrow> TaskScheduler \<Rightarrow> Task \<times> TaskScheduler" where
  "CreateGatherTask u0 s =
     (let (others, q) = drain [] (donePlotUnits s)
      in (\<lparr> type = Gather, unit = u0, otherUnits = others \<rparr>,
          s\<lparr> gatherUnitAvailable := False, donePlotUnits := q \<rparr>))"

definition CreateTonemapTask :: "int \<Rightarrow> TaskScheduler \<Rightarrow> Task \<times> TaskScheduler" where
  "CreateTonemapTask u0 s =
     (\<lparr> type = Tonemap, unit = u0, otherUnits = [] \<rparr>,
      s\<lparr> gatherUnitAvailable := False, tonemapUnitAvailable := False \<rparr>)"

subsection \<open>Completing tasks\<close>

definition CompleteTraceTask :: "TaskScheduler \<Rightarrow> Task \<Rightarrow> TaskScheduler" where
  "CompleteTraceTask s completedTask =
     s\<lparr> doneTraceUnits := doneTraceUnits s @ [unit completedTask],
        completedTraces := completedTraces s + 1 \<rparr>"

text \<open>
  The loop of \<^verbatim>\<open>CompletePlotTask\<close> and \<^verbatim>\<open>CompleteGatherTask\<close>: while the task's own
  copy of \<^verbatim>\<open>otherUnits\<close> is not empty, its \<^verbatim>\<open>back()\<close> is pushed on the queue and
  removed from the vector.
\<close>

function push_from_back :: "int list \<Rightarrow> int list \<Rightarrow> int list" where
  "push_from_back q others =
     (if others = [] then q else push_from_back (q @ [last others]) (butlast others))"
  by pat_completeness auto
termination
  by (relation "measure (\<lambda>(q, others). length others)") auto

declare push_from_back.simps [simp del]

definition CompletePlotTask :: "TaskScheduler \<Rightarrow> Task \<Rightarrow> TaskScheduler" where
  "CompletePlotTask s completedTask =
     s\<lparr> availableTraceUnits := push_from_back (availableTraceUnits s) (otherUnits completedTask),
        donePlotUnits := donePlotUnits s @ [unit completedTask] \<rparr>"

definition CompleteGatherTask :: "TaskScheduler \<Rightarrow> Task \<Rightarrow> TaskScheduler" where
  "CompleteGatherTask s completedTask =
     s\<lparr> availablePlotUnits := push_from_back (availablePlotUnits s) (otherUnits completedTask),
        gatherUnitAvailable := True,
        imageChanged := True \<rparr>"

text \<open>
  \<^verbatim>\<open>duration_cast<milliseconds>\<close> of a number of nanoseconds truncates towards zero.
\<close>

definition to_milliseconds :: "int \<Rightarrow> int" where
  "to_milliseconds d = (if d < 0 then - ((- d) div 1000000) else d div 1000000)"

text \<open>
  \<^verbatim>\<open>performance.push_back(x); if (performance.size() > 512) performance.pop_front();\<close>
\<close>

definition store_measurement :: "measurement list \<Rightarrow> measurement \<Rightarrow> measurement list" where
  "store_measurement perf x =
     (let perf' = perf @ [x] in if length perf' > 512 then tl perf' else perf')"

text \<open>
  \<^verbatim>\<open>completedTraces * 1000.0f / ms.count()\<close>, where \<^verbatim>\<open>ms\<close> is the time since
  \<^verbatim>\<open>lastTonemapTime\<close> in milliseconds.
\<close>

definition batchesPerSecond :: "TaskScheduler \<Rightarrow> int \<Rightarrow> measurement" where
  "batchesPerSecond s now =
     (let ms = to_milliseconds (now - lastTonemapTime s) in
      if ms = 0
      then if completedTraces s = 0 then NotANumber else PlusInfinity
      else Quotient (real (completedTraces s) * 1000 / real_of_int ms))"

definition CompleteTonemapTask :: "TaskScheduler \<Rightarrow> int \<Rightarrow> TaskScheduler" where
  "CompleteTonemapTask s now =
     s\<lparr> gatherUnitAvailable := True,
        tonemapUnitAvailable := True,
        imageChanged := False,
        lastTonemapTime := now,
        completedTraces := 0,
        performance := store_measurement (performance s) (batchesPerSecond s now) \<rparr>"

definition CompleteTask :: "TaskScheduler \<Rightarrow> Task \<Rightarrow> int \<Rightarrow> TaskScheduler" where
  "CompleteTask s completedTask now =
     (case type completedTask of
        Trace \<Rightarrow> CompleteTraceTask s completedTask
      | Plot \<Rightarrow> CompletePlotTask s completedTask
      | Gather \<Rightarrow> CompleteGatherTask s completedTask
      | Tonemap \<Rightarrow> CompleteTonemapTask s now
      | Sleep \<Rightarrow> s)"

subsection \<open>Getting a new task\<close>

text \<open>
  The part of \<^verbatim>\<open>GetNewTask\<close> after the block guarded by the tonemapping interval;
  control reaches it whenever that block does not return.
\<close>

definition dispatch_work :: "int \<Rightarrow> TaskScheduler \<Rightarrow> error + Task \<times> TaskScheduler" where
  "dispatch_work u0 s =
     (if length (doneTraceUnits s) > numberOfTraceUnits s div 2 \<and> availablePlotUnits s \<noteq> []
      then CreatePlotTask s
      else if availableTraceUnits s \<noteq> [] then CreateTraceTask s
      else if availablePlotUnits s \<noteq> [] \<and> doneTraceUnits s \<noteq> [] then CreatePlotTask s
      else if gatherUnitAvailable s \<and> donePlotUnits s \<noteq> [] then Inr (CreateGatherTask u0 s)
      else Inr (CreateSleepTask u0, s))"

text \<open>
  \<open>now_c\<close> is the reading of the clock in \<^verbatim>\<open>CompleteTonemapTask\<close> (taken only when a
  tonemap task completes), \<open>now\<close> the reading in \<^verbatim>\<open>GetNewTask\<close> itself.
\<close>

definition GetNewTask ::
  "int \<Rightarrow> TaskScheduler \<Rightarrow> Task \<Rightarrow> int \<Rightarrow> int \<Rightarrow> error + Task \<times> TaskScheduler" where
  "GetNewTask u0 s0 completedTask now_c now =
     (let s = CompleteTask s0 completedTask now_c in
      if now - lastTonemapTime s > tonemappingInterval then
        if imageChanged s then
          if gatherUnitAvailable s \<and> tonemapUnitAvailable s
          then Inr (CreateTonemapTask u0 s)
          else dispatch_work u0 s
        else
          if gatherUnitAvailable s \<and> donePlotUnits s \<noteq> []
          then Inr (CreateGatherTask u0 s)
          else dispatch_work u0 s
      else dispatch_work u0 s)"

section \<open>The dispatch policy in the words of the specification\<close>

text \<open>
  The six ordered rules of the specification's dispatch policy, as a function from the
  scheduler state (after the completion was applied) and the clock to the kind of the
  task that is handed out. \<open>T\<close> is \<open>numberOfTraceUnits\<close>.
\<close>

definition refresh_due :: "TaskScheduler \<Rightarrow> int \<Rightarrow> bool" where
  "refresh_due s now = (now - lastTonemapTime s > tonemappingInterval)"

definition dispatch_policy :: "TaskScheduler \<Rightarrow> int \<Rightarrow> TaskType" where
  "dispatch_policy s now =
     (if refresh_due s now \<and> imageChanged s \<and> gatherUnitAvailable s \<and> tonemapUnitAvailable s
      then Tonemap
      else if refresh_due s now \<and> \<not> imageChanged s \<and> donePlotUnits s \<noteq> []
              \<and> gatherUnitAvailable s
      then Gather
      else if length (doneTraceUnits s) > numberOfTraceUnits s div 2
              \<and> availablePlotUnits s \<noteq> []
      then Plot
      else if availableTraceUnits s \<noteq> [] then Trace
      else if availablePlotUnits s \<noteq> [] \<and> doneTraceUnits s \<noteq> [] then Plot
      else if gatherUnitAvailable s \<and> donePlotUnits s \<noteq> [] then Gather
      else Sleep)"

section \<open>Executions\<close>

subsection \<open>Sequences of calls on the scheduler\<close>

text \<open>
  A call of \<^verbatim>\<open>GetNewTask\<close> is the completed task it is given and the two readings
  of the clock. \<open>run\<close> makes the calls of a list one after the other, whatever the
  tasks are; \<open>measured\<close> collects the measurement that each completed tonemap task of
  the list produces, in order.
\<close>

type_synonym call = "Task \<times> int \<times> int"

fun run :: "int \<Rightarrow> TaskScheduler \<Rightarrow> call list \<Rightarrow> error + TaskScheduler" where
  "run u0 s [] = Inr s"
| "run u0 s ((c, now_c, now) # calls) =
     (case GetNewTask u0 s c now_c now of
        Inl e \<Rightarrow> Inl e
      | Inr (t, s') \<Rightarrow> run u0 s' calls)"

fun measured :: "int \<Rightarrow> TaskScheduler \<Rightarrow> call list \<Rightarrow> measurement list" where
  "measured u0 s [] = []"
| "measured u0 s ((c, now_c, now) # calls) =
     (case GetNewTask u0 s c now_c now of
        Inl e \<Rightarrow> []
      | Inr (t, s') \<Rightarrow>
          (if type c = Tonemap then [batchesPerSecond s now_c] else []) @ measured u0 s' calls)"

subsection \<open>Workers that conform\<close>

text \<open>
  The scheduler together with the tasks that workers hold: a task enters \<open>inflight\<close>
  when \<^verbatim>\<open>GetNewTask\<close> returns it and leaves when a worker hands it back. Sleep tasks
  hold no unit and are not recorded, so that the sentinel of a worker's first call is
  like any other sleep task. A worker conforms when the task it hands back is a sleep
  task or one that it was given and has not handed back before.
\<close>

record system =
  sched :: TaskScheduler
  inflight :: "Task list"

definition conforming :: "system \<Rightarrow> Task \<Rightarrow> bool" where
  "conforming sys c = (type c = Sleep \<or> c \<in> set (inflight sys))"

definition hold :: "Task \<Rightarrow> Task list \<Rightarrow> Task list" where
  "hold t ts = (if type t = Sleep then ts else t # ts)"

definition worker_call :: "int \<Rightarrow> system \<Rightarrow> Task \<Rightarrow> int \<Rightarrow> int \<Rightarrow> error + system" where
  "worker_call u0 sys c now_c now =
     (case GetNewTask u0 (sched sys) c now_c now of
        Inl e \<Rightarrow> Inl e
      | Inr (t, s') \<Rightarrow> Inr \<lparr> sched = s', inflight = hold t (remove1 c (inflight sys)) \<rparr>)"

inductive reachable :: "system \<Rightarrow> bool" where
  start: "TaskScheduler numberOfThreads now = Inr s \<Longrightarrow>
          reachable \<lparr> sched = s, inflight = [] \<rparr>"
| call: "reachable sys \<Longrightarrow> conforming sys c \<Longrightarrow>
         worker_call u0 sys c now_c now = Inr sys' \<Longrightarrow> reachable sys'"

fun exec :: "int \<Rightarrow> system \<Rightarrow> call list \<Rightarrow> system option" where
  "exec u0 sys [] = Some sys"
| "exec u0 sys ((c, now_c, now) # calls) =
     (if conforming sys c
      then case worker_call u0 sys c now_c now of
             Inl e \<Rightarrow> None
           | Inr sys' \<Rightarrow> exec u0 sys' calls
      else None)"

subsection \<open>Units held by tasks in flight\<close>

definition trace_units_of :: "Task \<Rightarrow> int list" where
  "trace_units_of t =
     (case type t of Trace \<Rightarrow> [unit t] | Plot \<Rightarrow> otherUnits t | _ \<Rightarrow> [])"

definition plot_units_of :: "Task \<Rightarrow> int list" where
  "plot_units_of t =
     (case type t of Plot \<Rightarrow> [unit t] | Gather \<Rightarrow> otherUnits t | _ \<Rightarrow> [])"

definition inflightTraceUnits :: "system \<Rightarrow> int list" where
  "inflightTraceUnits sys = concat (map trace_units_of (inflight sys))"

definition inflightPlotUnits :: "system \<Rightarrow> int list" where
  "inflightPlotUnits sys = concat (map plot_units_of (inflight sys))"

definition uses_gather_unit :: "Task \<Rightarrow> bool" where
  "uses_gather_unit t = (type t = Gather \<or> type t = Tonemap)"

section \<open>States of the specification's scenarios\<close>

text \<open>
  The scheduler for two threads right after construction at clock reading 0: six trace
  units, one plot unit, everything available.
\<close>

definition cold_start :: TaskScheduler where
  "cold_start =
     \<lparr> numberOfTraceUnits = 6, numberOfPlotUnits = 1,
       availableTraceUnits = [0, 1, 2, 3, 4, 5], doneTraceUnits = [],
       availablePlotUnits = [0], donePlotUnits = [],
       gatherUnitAvailable = True, tonemapUnitAvailable = True, imageChanged = False,
       lastTonemapTime = 0, completedTraces = 0, performance = [] \<rparr>"

text \<open>The same scheduler when all six trace units are done and none was plotted.\<close>

definition trace_drain :: TaskScheduler where
  "trace_drain =
     cold_start\<lparr> availableTraceUnits := [], doneTraceUnits := [0, 1, 2, 3, 4, 5],
                 completedTraces := 6 \<rparr>"

text \<open>The same scheduler when every trace unit and the plot unit are held by workers.\<close>

definition all_busy :: TaskScheduler where
  "all_busy = cold_start\<lparr> availableTraceUnits := [], availablePlotUnits := [] \<rparr>"

text \<open>A plot task over the three oldest trace units, as handed out from \<open>trace_drain\<close>.\<close>

definition plot012 :: Task where
  "plot012 = \<lparr> type = Plot, unit = 0, otherUnits = [0, 1, 2] \<rparr>"

text \<open>A trace task that names a unit the scheduler of six trace units does not have.\<close>

definition trace99 :: Task where
  "trace99 = \<lparr> type = Trace, unit = 99, otherUnits = [] \<rparr>"

subsection \<open>A run of the scheduler for two threads\<close>

text \<open>
  One worker's first five calls: the sentinel, then four completed trace tasks. The
  fifth call finds four trace units done, more than half of six, and is given a plot
  task over the two oldest; this is the system \<open>plotting\<close>. When that plot task is
  handed back 31 seconds after construction, the display refresh is due and the worker
  is given a gather task; this is the system \<open>gathering\<close>.
\<close>

definition trace_task :: "int \<Rightarrow> Task" where
  "trace_task u = \<lparr> type = Trace, unit = u, otherUnits = [] \<rparr>"

definition plot01 :: Task where
  "plot01 = \<lparr> type = Plot, unit = 0, otherUnits = [0, 1] \<rparr>"

definition gather0 :: Task where
  "gather0 = \<lparr> type = Gather, unit = 0, otherUnits = [0] \<rparr>"

definition plot_calls :: "call list" where
  "plot_calls =
     [(CreateSleepTask 0, 0, 0), (trace_task 0, 0, 0), (trace_task 1, 0, 0),
      (trace_task 2, 0, 0), (trace_task 3, 0, 0)]"

definition plotting :: system where
  "plotting =
     \<lparr> sched = cold_start\<lparr> availableTraceUnits := [4, 5], doneTraceUnits := [2, 3],
                            availablePlotUnits := [], completedTraces := 4 \<rparr>,
       inflight = [plot01] \<rparr>"

definition gathering :: system where
  "gathering =
     \<lparr> sched = cold_start\<lparr> availableTraceUnits := [4, 5, 1, 0], doneTraceUnits := [2, 3],
                            availablePlotUnits := [], gatherUnitAvailable := False,
                            completedTraces := 4 \<rparr>,
       inflight = [gather0] \<rparr>"

text \<open>
  A gather task that no call ever handed out: it names no plot unit, so it is not the
  gather task \<open>gather0\<close> that is held in \<open>gathering\<close>.
\<close>

definition stray_gather :: Task where
  "stray_gather = \<lparr> type = Gather, unit = 0, otherUnits = [] \<rparr>"

subsection \<open>A run of the scheduler for four threads\<close>

text \<open>
  Twelve trace units and two plot units. Twelve first calls hand out all trace units;
  the trace tasks on units 0 and 1 come back and each caller is given a plot task, on
  plot unit 0 and on plot unit 1. After 31 seconds the plot task on unit 0 comes back
  and its caller is given the gather task over plot unit 0. Then the plot task on unit 1
  comes back, while the gather task is still held: this is the system \<open>overtaken\<close>.
\<close>

definition four_threads :: TaskScheduler where
  "four_threads =
     \<lparr> numberOfTraceUnits = 12, numberOfPlotUnits = 2,
       availableTraceUnits = [0, 1, 2, 3, 4, 5, 6, 7, 8, 9, 10, 11], doneTraceUnits = [],
       availablePlotUnits = [0, 1], donePlotUnits = [],
       gatherUnitAvailable = True, tonemapUnitAvailable = True, imageChanged = False,
       lastTonemapTime = 0, completedTraces = 0, performance = [] \<rparr>"

definition overtake_calls :: "call list" where
  "overtake_calls =
     replicate 12 (CreateSleepTask 0, 0, 0) @
     [(trace_task 0, 0, 0), (trace_task 1, 0, 0),
      (\<lparr> type = Plot, unit = 0, otherUnits = [0] \<rparr>, 31000000000, 31000000000),
      (\<lparr> type = Plot, unit = 1, otherUnits = [1] \<rparr>, 31000000000, 31000000000)]"

definition overtaken :: system where
  "overtaken =
     \<lparr> sched = four_threads\<lparr> availableTraceUnits := [1], availablePlotUnits := [],
                              donePlotUnits := [1], gatherUnitAvailable := False,
                              completedTraces := 2 \<rparr>,
       inflight = trace_task 0 # gather0 #
                  map trace_task [11, 10, 9, 8, 7, 6, 5, 4, 3, 2] \<rparr>"

text \<open>
  The two plot tasks of that run; the system \<open>two_plots\<close> when both are held, after the
  first fourteen calls; and the system \<open>gather_started\<close> after the fifteenth call, in
  which the plot task on unit 0 came back and the gather task was handed out.
\<close>

definition plot_0 :: Task where
  "plot_0 = \<lparr> type = Plot, unit = 0, otherUnits = [0] \<rparr>"

definition plot_1 :: Task where
  "plot_1 = \<lparr> type = Plot, unit = 1, otherUnits = [1] \<rparr>"

definition two_plots :: system where
  "two_plots =
     \<lparr> sched = four_threads\<lparr> availableTraceUnits := [], availablePlotUnits := [],
                              completedTraces := 2 \<rparr>,
       inflight = plot_1 # plot_0 # map trace_task [11, 10, 9, 8, 7, 6, 5, 4, 3, 2] \<rparr>"

definition gather_started :: system where
  "gather_started =
     \<lparr> sched = four_threads\<lparr> availableTraceUnits := [0], availablePlotUnits := [],
                              gatherUnitAvailable := False, completedTraces := 2 \<rparr>,
       inflight = gather0 # plot_1 # map trace_task [11, 10, 9, 8, 7, 6, 5, 4, 3, 2] \<rparr>"

section \<open>Loops in closed form\<close>

lemma push_indices_upto: "push_indices i n q = q @ [i..n - 1]"
proof (induction i n q rule: push_indices.induct)
  case (1 i n q)
  show ?case
  proof (cases "i < n")
    case True
    then have "[i..n - 1] = i # [i + 1..n - 1]"
      by (simp add: upto_rec1)
    with True "1" show ?thesis
      by (simp add: push_indices.simps [of i n q])
  next
    case False
    then show ?thesis
      by (simp add: push_indices.simps [of i n q])
  qed
qed

lemma take_done_split:
  "n \<le> length q \<Longrightarrow> take_done n others q = Inr (others @ take n q, drop n q)"
  by (induction n others q rule: take_done.induct) simp_all

lemma drain_all: "drain others q = (others @ q, [])"
  by (induction others q rule: drain.induct) simp_all

lemma push_from_back_rev: "push_from_back q others = q @ rev others"
proof (induction q others rule: push_from_back.induct)
  case (1 q others)
  show ?case
  proof (cases "others = []")
    case True
    then show ?thesis
      by (subst push_from_back.simps) simp
  next
    case False
    then have split: "others = butlast others @ [last others]"
      by simp
    have "push_from_back q others = push_from_back (q @ [last others]) (butlast others)"
      using False by (subst push_from_back.simps) simp
    also have "\<dots> = (q @ [last others]) @ rev (butlast others)"
      using False by (rule "1.IH")
    also have "\<dots> = q @ rev (butlast others @ [last others])"
      by simp
    finally show ?thesis
      using split by simp
  qed
qed

section \<open>The functions that create tasks\<close>

lemma CreateTraceTask_front:
  "availableTraceUnits s \<noteq> [] \<Longrightarrow>
   CreateTraceTask s =
     Inr (\<lparr> type = Trace, unit = hd (availableTraceUnits s), otherUnits = [] \<rparr>,
          s\<lparr> availableTraceUnits := tl (availableTraceUnits s) \<rparr>)"
  by (cases "availableTraceUnits s") (simp_all add: CreateTraceTask_def)

lemma CreatePlotTask_front:
  "availablePlotUnits s \<noteq> [] \<Longrightarrow>
   CreatePlotTask s =
     Inr (\<lparr> type = Plot, unit = hd (availablePlotUnits s),
            otherUnits = take (plot_count (length (doneTraceUnits s))) (doneTraceUnits s) \<rparr>,
          s\<lparr> availablePlotUnits := tl (availablePlotUnits s),
             doneTraceUnits := drop (plot_count (length (doneTraceUnits s))) (doneTraceUnits s) \<rparr>)"
  by (cases "availablePlotUnits s")
     (simp_all add: CreatePlotTask_def plot_count_def Let_def take_done_split)

lemma CreateGatherTask_all:
  "CreateGatherTask u0 s =
     (\<lparr> type = Gather, unit = u0, otherUnits = donePlotUnits s \<rparr>,
      s\<lparr> gatherUnitAvailable := False, donePlotUnits := [] \<rparr>)"
  by (simp add: CreateGatherTask_def drain_all)

section \<open>Dispatch\<close>

lemma dispatch_work_cases:
  assumes "dispatch_work u0 s = Inr (t, s')"
  obtains
    (Plot) "t = \<lparr> type = Plot, unit = hd (availablePlotUnits s),
                otherUnits = take (plot_count (length (doneTraceUnits s))) (doneTraceUnits s) \<rparr>"
      and "s' = s\<lparr> availablePlotUnits := tl (availablePlotUnits s),
                    doneTraceUnits := drop (plot_count (length (doneTraceUnits s))) (doneTraceUnits s) \<rparr>"
      and "availablePlotUnits s \<noteq> []" and "doneTraceUnits s \<noteq> []"
  | (Trace) "t = \<lparr> type = Trace, unit = hd (availableTraceUnits s), otherUnits = [] \<rparr>"
      and "s' = s\<lparr> availableTraceUnits := tl (availableTraceUnits s) \<rparr>"
      and "availableTraceUnits s \<noteq> []"
  | (Gather) "t = \<lparr> type = Gather, unit = u0, otherUnits = donePlotUnits s \<rparr>"
      and "s' = s\<lparr> gatherUnitAvailable := False, donePlotUnits := [] \<rparr>"
      and "gatherUnitAvailable s" and "donePlotUnits s \<noteq> []"
  | (Sleep) "t = \<lparr> type = Sleep, unit = u0, otherUnits = [] \<rparr>" and "s' = s"
proof -
  consider
    (a) "length (doneTraceUnits s) > numberOfTraceUnits s div 2 \<and> availablePlotUnits s \<noteq> []"
      and "dispatch_work u0 s = CreatePlotTask s"
  | (b) "availableTraceUnits s \<noteq> []" and "dispatch_work u0 s = CreateTraceTask s"
  | (c) "availablePlotUnits s \<noteq> [] \<and> doneTraceUnits s \<noteq> []"
      and "dispatch_work u0 s = CreatePlotTask s"
  | (d) "gatherUnitAvailable s \<and> donePlotUnits s \<noteq> []"
      and "dispatch_work u0 s = Inr (CreateGatherTask u0 s)"
  | (e) "dispatch_work u0 s = Inr (CreateSleepTask u0, s)"
    unfolding dispatch_work_def by presburger
  then show thesis
  proof cases
    case a
    then have "doneTraceUnits s \<noteq> []"
      by auto
    with a assms show thesis
      by (intro Plot) (simp_all add: CreatePlotTask_front)
  next
    case b
    with assms show thesis
      by (intro Trace) (simp_all add: CreateTraceTask_front)
  next
    case c
    with assms show thesis
      by (intro Plot) (simp_all add: CreatePlotTask_front)
  next
    case d
    with assms show thesis
      by (intro Gather) (simp_all add: CreateGatherTask_all)
  next
    case e
    with assms show thesis
      by (intro Sleep) (simp_all add: CreateSleepTask_def)
  qed
qed

lemma GetNewTask_cases:
  assumes "GetNewTask u0 s0 c now_c now = Inr (t, s')" and "s = CompleteTask s0 c now_c"
  obtains
    (Tonemap) "t = \<lparr> type = Tonemap, unit = u0, otherUnits = [] \<rparr>"
      and "s' = s\<lparr> gatherUnitAvailable := False, tonemapUnitAvailable := False \<rparr>"
      and "gatherUnitAvailable s" and "tonemapUnitAvailable s" and "imageChanged s"
  | (Plot) "t = \<lparr> type = Plot, unit = hd (availablePlotUnits s),
                otherUnits = take (plot_count (length (doneTraceUnits s))) (doneTraceUnits s) \<rparr>"
      and "s' = s\<lparr> availablePlotUnits := tl (availablePlotUnits s),
                    doneTraceUnits := drop (plot_count (length (doneTraceUnits s))) (doneTraceUnits s) \<rparr>"
      and "availablePlotUnits s \<noteq> []" and "doneTraceUnits s \<noteq> []"
  | (Trace) "t = \<lparr> type = Trace, unit = hd (availableTraceUnits s), otherUnits = [] \<rparr>"
      and "s' = s\<lparr> availableTraceUnits := tl (availableTraceUnits s) \<rparr>"
      and "availableTraceUnits s \<noteq> []"
  | (Gather) "t = \<lparr> type = Gather, unit = u0, otherUnits = donePlotUnits s \<rparr>"
      and "s' = s\<lparr> gatherUnitAvailable := False, donePlotUnits := [] \<rparr>"
      and "gatherUnitAvailable s" and "donePlotUnits s \<noteq> []"
  | (Sleep) "t = \<lparr> type = Sleep, unit = u0, otherUnits = [] \<rparr>" and "s' = s"
proof -
  consider
    (a) "gatherUnitAvailable s \<and> tonemapUnitAvailable s \<and> imageChanged s"
      and "GetNewTask u0 s0 c now_c now = Inr (CreateTonemapTask u0 s)"
  | (b) "gatherUnitAvailable s \<and> donePlotUnits s \<noteq> []"
      and "GetNewTask u0 s0 c now_c now = Inr (CreateGatherTask u0 s)"
  | (c) "GetNewTask u0 s0 c now_c now = dispatch_work u0 s"
    unfolding GetNewTask_def Let_def assms(2) [symmetric] by presburger
  then show thesis
  proof cases
    case a
    with assms(1) show thesis
      by (intro Tonemap) (simp_all add: CreateTonemapTask_def)
  next
    case b
    with assms(1) show thesis
      by (intro Gather) (simp_all add: CreateGatherTask_all)
  next
    case c
    with assms(1) have "dispatch_work u0 s = Inr (t, s')"
      by simp
    then show thesis
      by (rule dispatch_work_cases) (erule Plot Trace Gather Sleep; assumption)+
  qed
qed

lemma dispatch_work_total: "\<exists>t s'. dispatch_work u0 s = Inr (t, s')"
  by (simp add: dispatch_work_def CreatePlotTask_front CreateTraceTask_front
      CreateGatherTask_all)

lemma dispatch_work_type:
  "dispatch_work u0 s = Inr (t, s') \<Longrightarrow>
   type t =
     (if length (doneTraceUnits s) > numberOfTraceUnits s div 2 \<and> availablePlotUnits s \<noteq> []
      then Plot
      else if availableTraceUnits s \<noteq> [] then Trace
      else if availablePlotUnits s \<noteq> [] \<and> doneTraceUnits s \<noteq> [] then Plot
      else if gatherUnitAvailable s \<and> donePlotUnits s \<noteq> [] then Gather
      else Sleep)"
  by (auto simp: dispatch_work_def CreatePlotTask_front CreateTraceTask_front
      CreateGatherTask_all CreateSleepTask_def split: if_splits)

lemma GetNewTask_total: "\<exists>t s'. GetNewTask u0 s c now_c now = Inr (t, s')"
  using dispatch_work_total
  by (simp add: GetNewTask_def Let_def CreateTonemapTask_def CreateGatherTask_all)

text \<open>
  Claim C1. \<^verbatim>\<open>GetNewTask\<close> always returns a task, and the kind of that task is the one
  that the ordered six-rule policy of the specification selects in the state left by
  the completion of the task passed in, at the clock reading of the call: tonemap or
  gather when the display refresh is due, then plot under pressure, trace, plot, gather,
  and sleep when nothing else applies.
\<close>

theorem GetNewTask_policy:
  "\<exists>t s'. GetNewTask u0 s c now_c now = Inr (t, s') \<and>
           type t = dispatch_policy (CompleteTask s c now_c) now"
proof -
  obtain t s' where r: "GetNewTask u0 s c now_c now = Inr (t, s')"
    using GetNewTask_total by blast
  define s1 where "s1 = CompleteTask s c now_c"
  have "type t = dispatch_policy s1 now"
    using r dispatch_work_type [of u0 s1 t s']
    unfolding GetNewTask_def Let_def s1_def [symmetric] dispatch_policy_def refresh_due_def
    by (auto simp: CreateTonemapTask_def CreateGatherTask_all split: if_splits)
  with r show ?thesis
    by (simp add: s1_def)
qed

section \<open>The constructed scheduler\<close>

lemma upto_0_5: "[0..5] = [0, 1, 2, 3, 4, (5::int)]"
  by (simp add: upto_rec1)

lemma TaskScheduler_2: "TaskScheduler 2 0 = Inr cold_start"
  by (simp add: TaskScheduler_def int_div2_def cold_start_def push_indices_upto Let_def upto_0_5)

section \<open>Sleep tasks\<close>

lemma Sleep_dispatch_unchanged:
  assumes "GetNewTask u0 s c now_c now = Inr (t, s')" and "type t = Sleep"
  shows "s' = CompleteTask s c now_c"
  using assms(1) refl
  by (rule GetNewTask_cases) (use assms(2) in simp_all)

text \<open>
  Claim C9. Sleep is an identity on the scheduler state: completing a sleep task (the
  sentinel of a first call included) returns the state as it was; a call that hands out a
  sleep task leaves the state exactly as the completion left it; so a call that completes
  a sleep task and hands out a sleep task returns the state it was given.
\<close>

theorem Sleep_identity:
  "(type c = Sleep \<longrightarrow> CompleteTask s c now_c = s) \<and>
   (GetNewTask u0 s c now_c now = Inr (t, s') \<and> type t = Sleep \<longrightarrow>
      s' = CompleteTask s c now_c) \<and>
   (type c = Sleep \<and> GetNewTask u0 s c now_c now = Inr (t, s') \<and> type t = Sleep \<longrightarrow>
      s' = s)"
proof (intro conjI impI)
  assume "type c = Sleep"
  then show "CompleteTask s c now_c = s"
    by (simp add: CompleteTask_def)
next
  assume "GetNewTask u0 s c now_c now = Inr (t, s') \<and> type t = Sleep"
  then show "s' = CompleteTask s c now_c"
    using Sleep_dispatch_unchanged by blast
next
  assume a: "type c = Sleep \<and> GetNewTask u0 s c now_c now = Inr (t, s') \<and> type t = Sleep"
  then have "s' = CompleteTask s c now_c"
    using Sleep_dispatch_unchanged by blast
  with a show "s' = s"
    by (simp add: CompleteTask_def)
qed

lemma all_busy_sleeps:
  "GetNewTask 0 all_busy (CreateSleepTask 0) 0 0 = Inr (CreateSleepTask 0, all_busy)"
  by (simp add: GetNewTask_def CompleteTask_def CreateSleepTask_def all_busy_def
      cold_start_def dispatch_work_def tonemappingInterval_def)

theorem Sleep_identity_witness:
  "type (CreateSleepTask 0) = Sleep \<and>
   CompleteTask all_busy (CreateSleepTask 0) 0 = all_busy \<and>
   GetNewTask 0 all_busy (CreateSleepTask 0) 0 0 = Inr (CreateSleepTask 0, all_busy)"
  using Sleep_identity [of "CreateSleepTask 0" all_busy 0 0 0 "CreateSleepTask 0" all_busy]
    all_busy_sleeps
  by (simp add: CreateSleepTask_def)

section \<open>Order of the units returned by a completion\<close>

lemma CompletePlotTask_queue:
  "availableTraceUnits (CompletePlotTask s c) = availableTraceUnits s @ rev (otherUnits c)"
  by (simp add: CompletePlotTask_def push_from_back_rev)

lemma CompleteGatherTask_queue:
  "availablePlotUnits (CompleteGatherTask s c) = availablePlotUnits s @ rev (otherUnits c)"
  by (simp add: CompleteGatherTask_def push_from_back_rev)

text \<open>
  Claim C10. A completed plot task returns its input trace units to
  \<open>availableTraceUnits\<close> in the reverse of their order in \<open>otherUnits\<close>, and a completed
  gather task returns its input plot units to \<open>availablePlotUnits\<close> reversed likewise. As
  tasks take the front of a queue, when the queue was empty the next trace (or plot) task
  gets the unit listed last.
\<close>

theorem completion_requeues_reversed:
  "availableTraceUnits (CompletePlotTask s c) = availableTraceUnits s @ rev (otherUnits c) \<and>
   availablePlotUnits (CompleteGatherTask s c) = availablePlotUnits s @ rev (otherUnits c) \<and>
   (availableTraceUnits s = [] \<and> otherUnits c \<noteq> [] \<longrightarrow>
      (\<exists>t s'. CreateTraceTask (CompletePlotTask s c) = Inr (t, s') \<and>
               unit t = last (otherUnits c))) \<and>
   (availablePlotUnits s = [] \<and> otherUnits c \<noteq> [] \<longrightarrow>
      (\<exists>t s'. CreatePlotTask (CompleteGatherTask s c) = Inr (t, s') \<and>
               unit t = last (otherUnits c)))"
proof (intro conjI impI)
  show "availableTraceUnits (CompletePlotTask s c) = availableTraceUnits s @ rev (otherUnits c)"
    by (rule CompletePlotTask_queue)
  show "availablePlotUnits (CompleteGatherTask s c) = availablePlotUnits s @ rev (otherUnits c)"
    by (rule CompleteGatherTask_queue)
next
  assume a: "availableTraceUnits s = [] \<and> otherUnits c \<noteq> []"
  then have q: "availableTraceUnits (CompletePlotTask s c) = rev (otherUnits c)"
    by (simp add: CompletePlotTask_queue)
  with a have ne: "availableTraceUnits (CompletePlotTask s c) \<noteq> []"
    by simp
  show "\<exists>t s'. CreateTraceTask (CompletePlotTask s c) = Inr (t, s') \<and>
               unit t = last (otherUnits c)"
    unfolding CreateTraceTask_front [OF ne]
    by (intro exI conjI, rule refl) (simp add: q hd_rev)
next
  assume a: "availablePlotUnits s = [] \<and> otherUnits c \<noteq> []"
  then have q: "availablePlotUnits (CompleteGatherTask s c) = rev (otherUnits c)"
    by (simp add: CompleteGatherTask_queue)
  with a have ne: "availablePlotUnits (CompleteGatherTask s c) \<noteq> []"
    by simp
  show "\<exists>t s'. CreatePlotTask (CompleteGatherTask s c) = Inr (t, s') \<and>
               unit t = last (otherUnits c)"
    unfolding CreatePlotTask_front [OF ne]
    by (intro exI conjI, rule refl) (simp add: q hd_rev)
qed



theorem completion_requeues_reversed_witness:
  "availableTraceUnits all_busy = [] \<and> availablePlotUnits all_busy = [] \<and>
   otherUnits plot012 = [0, 1, 2] \<and>
   availableTraceUnits (CompletePlotTask all_busy plot012) = [2, 1, 0] \<and>
   availablePlotUnits (CompleteGatherTask all_busy plot012) = [2, 1, 0] \<and>
   (\<exists>t s'. CreateTraceTask (CompletePlotTask all_busy plot012) = Inr (t, s') \<and> unit t = 2) \<and>
   (\<exists>t s'. CreatePlotTask (CompleteGatherTask all_busy plot012) = Inr (t, s') \<and> unit t = 2)"
proof -
  have a: "availableTraceUnits all_busy = []" "availablePlotUnits all_busy = []"
    by (simp_all add: all_busy_def)
  have b: "otherUnits plot012 = [0, 1, 2]"
    by (simp add: plot012_def)
  from completion_requeues_reversed [of all_busy plot012] show ?thesis
    unfolding a b by simp
qed

section \<open>Completion of a tonemap task\<close>



section \<open>Plot tasks\<close>

text \<open>
  Claim C6. Every plot task that \<^verbatim>\<open>GetNewTask\<close> hands out takes its unit from the
  front of \<open>availablePlotUnits\<close> and consumes exactly \<open>n = max 1 (|doneTraceUnits| div 2)\<close>
  trace units, the \<open>n\<close> oldest of \<open>doneTraceUnits\<close> in their order, which leaves the rest
  in the queue.
\<close>

theorem Plot_dispatch:
  assumes "GetNewTask u0 s0 c now_c now = Inr (t, s')" and "type t = Plot"
    and "s = CompleteTask s0 c now_c" and "n = max 1 (length (doneTraceUnits s) div 2)"
  shows "availablePlotUnits s \<noteq> [] \<and> unit t = hd (availablePlotUnits s) \<and>
         availablePlotUnits s' = tl (availablePlotUnits s) \<and>
         n \<le> length (doneTraceUnits s) \<and>
         otherUnits t = take n (doneTraceUnits s) \<and> length (otherUnits t) = n \<and>
         doneTraceUnits s' = drop n (doneTraceUnits s)"
  using assms(1,3)
proof (cases rule: GetNewTask_cases)
  case Plot
  then have "0 < length (doneTraceUnits s)"
    by simp
  then have "plot_count (length (doneTraceUnits s)) = n" and "n \<le> length (doneTraceUnits s)"
    unfolding assms(4) plot_count_def by linarith+
  with Plot show ?thesis
    by simp
qed (use assms(2) in simp_all)

lemma trace_drain_plots:
  "GetNewTask 0 trace_drain (CreateSleepTask 0) 0 0 =
     Inr (plot012, trace_drain\<lparr> availablePlotUnits := [], doneTraceUnits := [3, 4, 5] \<rparr>)"
  by (simp add: GetNewTask_def CompleteTask_def CreateSleepTask_def trace_drain_def
      cold_start_def dispatch_work_def tonemappingInterval_def CreatePlotTask_front
      plot_count_def plot012_def)

text \<open>
  The scenario of the claim: six trace units all done, none available, the plot unit
  available. The plot task takes the units 0, 1, 2 and leaves 3, 4, 5.
\<close>

theorem Plot_dispatch_witness:
  "GetNewTask 0 trace_drain (CreateSleepTask 0) 0 0 =
     Inr (plot012, trace_drain\<lparr> availablePlotUnits := [], doneTraceUnits := [3, 4, 5] \<rparr>) \<and>
   type plot012 = Plot \<and>
   max 1 (length (doneTraceUnits trace_drain) div 2) = 3 \<and>
   availablePlotUnits trace_drain = [0] \<and> unit plot012 = 0 \<and>
   doneTraceUnits trace_drain = [0, 1, 2, 3, 4, 5] \<and>
   otherUnits plot012 = [0, 1, 2] \<and> length (otherUnits plot012) = 3"
proof -
  have ty: "type plot012 = Plot"
    by (simp add: plot012_def)
  have s: "trace_drain = CompleteTask trace_drain (CreateSleepTask 0) 0"
    by (simp add: CompleteTask_def CreateSleepTask_def)
  have n: "3 = max 1 (length (doneTraceUnits trace_drain) div 2)"
    by (simp add: trace_drain_def)
  have q: "availablePlotUnits trace_drain = [0]" "doneTraceUnits trace_drain = [0, 1, 2, 3, 4, 5]"
    by (simp_all add: trace_drain_def cold_start_def)
  from Plot_dispatch [OF trace_drain_plots ty s n] trace_drain_plots ty n [symmetric] q
  show ?thesis
    by simp
qed

section \<open>Completed tasks are not checked\<close>

text \<open>
  Claim C7, the counterexample. The scheduler for two threads has the trace units 0 to 5.
  A first call that hands back a trace task on unit 99, which does not exist and was
  never handed out, does not abort: it returns a trace task, with 99 in
  \<open>doneTraceUnits\<close> and the trace counted as completed.
\<close>

theorem unknown_unit_accepted:
  "TaskScheduler 2 0 = Inr cold_start \<and>
   \<not> (0 \<le> unit trace99 \<and> unit trace99 < int (numberOfTraceUnits cold_start)) \<and>
   GetNewTask 0 cold_start trace99 0 0 =
     Inr (\<lparr> type = Trace, unit = 0, otherUnits = [] \<rparr>,
          cold_start\<lparr> availableTraceUnits := [1, 2, 3, 4, 5], doneTraceUnits := [99],
                      completedTraces := 1 \<rparr>)"
  by (simp add: TaskScheduler_2)
     (simp add: GetNewTask_def CompleteTask_def CompleteTraceTask_def trace99_def
      cold_start_def dispatch_work_def tonemappingInterval_def CreateTraceTask_front)

lemma GetNewTask_queues:
  assumes "GetNewTask u0 s0 c now_c now = Inr (t, s')" and "s = CompleteTask s0 c now_c"
  shows "(if type t = Plot then otherUnits t else []) @ doneTraceUnits s' = doneTraceUnits s"
    and "(if type t = Gather then otherUnits t else []) @ donePlotUnits s' = donePlotUnits s"
    and "(if type t = Trace then [unit t] else []) @ availableTraceUnits s'
           = availableTraceUnits s"
    and "(if type t = Plot then [unit t] else []) @ availablePlotUnits s'
           = availablePlotUnits s"
    and "completedTraces s' = completedTraces s"
    and "imageChanged s' = imageChanged s"
  using assms by (cases rule: GetNewTask_cases; simp)+

lemma GetNewTask_after_completion:
  "GetNewTask u0 (CompleteTask s c now_c) (CreateSleepTask u1) now_c' now
     = GetNewTask u0 s c now_c now"
proof -
  have "CompleteTask s1 (CreateSleepTask u1) now_c' = s1" for s1
    by (simp add: CompleteTask_def CreateSleepTask_def)
  then show ?thesis
    by (simp add: GetNewTask_def)
qed

text \<open>
  Claim C7 as amended. \<^verbatim>\<open>GetNewTask\<close> does not check the task it is given. For
  every state and every completed task it returns a task, and what it returns is what it
  returns for a sleep task in the state with the completion applied: the completion
  always takes effect. The effect is on whatever units the task names, and shows in the
  returned state and task: the unit of a trace task is at the end of \<open>doneTraceUnits\<close>
  (or of the inputs of the plot task handed out) and the trace is counted; the inputs of
  a plot task are at the end of \<open>availableTraceUnits\<close>, reversed (less the unit of the
  trace task handed out), and its unit is at the end of \<open>donePlotUnits\<close> (or of the
  inputs of the gather task handed out); the inputs of a gather task are at the end of
  \<open>availablePlotUnits\<close>, reversed (less the unit of the plot task handed out), and
  \<open>imageChanged\<close> is set.
\<close>

theorem completion_not_validated:
  "(\<exists>t s'. GetNewTask u0 s c now_c now = Inr (t, s') \<and>
      GetNewTask u0 (CompleteTask s c now_c) (CreateSleepTask u1) now_c now = Inr (t, s')) \<and>
   (\<exists>t s'. GetNewTask u0 s \<lparr> type = Trace, unit = u, otherUnits = others \<rparr> now_c now
              = Inr (t, s') \<and>
      (if type t = Plot then otherUnits t else []) @ doneTraceUnits s'
        = doneTraceUnits s @ [u] \<and>
      completedTraces s' = completedTraces s + 1) \<and>
   (\<exists>t s'. GetNewTask u0 s \<lparr> type = Plot, unit = u, otherUnits = others \<rparr> now_c now
              = Inr (t, s') \<and>
      (if type t = Trace then [unit t] else []) @ availableTraceUnits s'
        = availableTraceUnits s @ rev others \<and>
      (if type t = Gather then otherUnits t else []) @ donePlotUnits s'
        = donePlotUnits s @ [u]) \<and>
   (\<exists>t s'. GetNewTask u0 s \<lparr> type = Gather, unit = u, otherUnits = others \<rparr> now_c now
              = Inr (t, s') \<and>
      (if type t = Plot then [unit t] else []) @ availablePlotUnits s'
        = availablePlotUnits s @ rev others \<and>
      imageChanged s') \<and>
   CompleteTask s \<lparr> type = Trace, unit = u, otherUnits = others \<rparr> now_c =
     s\<lparr> doneTraceUnits := doneTraceUnits s @ [u], completedTraces := completedTraces s + 1 \<rparr> \<and>
   CompleteTask s \<lparr> type = Plot, unit = u, otherUnits = others \<rparr> now_c =
     s\<lparr> availableTraceUnits := availableTraceUnits s @ rev others,
        donePlotUnits := donePlotUnits s @ [u] \<rparr> \<and>
   CompleteTask s \<lparr> type = Gather, unit = u, otherUnits = others \<rparr> now_c =
     s\<lparr> availablePlotUnits := availablePlotUnits s @ rev others,
        gatherUnitAvailable := True, imageChanged := True \<rparr>"
proof -
  let ?tr = "\<lparr> type = Trace, unit = u, otherUnits = others \<rparr>"
  let ?pl = "\<lparr> type = Plot, unit = u, otherUnits = others \<rparr>"
  let ?ga = "\<lparr> type = Gather, unit = u, otherUnits = others \<rparr>"
  have ctr: "CompleteTask s ?tr now_c =
     s\<lparr> doneTraceUnits := doneTraceUnits s @ [u], completedTraces := completedTraces s + 1 \<rparr>"
    by (simp add: CompleteTask_def CompleteTraceTask_def)
  have cpl: "CompleteTask s ?pl now_c =
     s\<lparr> availableTraceUnits := availableTraceUnits s @ rev others,
        donePlotUnits := donePlotUnits s @ [u] \<rparr>"
    by (simp add: CompleteTask_def CompletePlotTask_def push_from_back_rev)
  have cga: "CompleteTask s ?ga now_c =
     s\<lparr> availablePlotUnits := availablePlotUnits s @ rev others,
        gatherUnitAvailable := True, imageChanged := True \<rparr>"
    by (simp add: CompleteTask_def CompleteGatherTask_def push_from_back_rev)
  have a: "\<exists>t s'. GetNewTask u0 s c now_c now = Inr (t, s') \<and>
      GetNewTask u0 (CompleteTask s c now_c) (CreateSleepTask u1) now_c now = Inr (t, s')"
    using GetNewTask_total [of u0 s c now_c now] by (simp add: GetNewTask_after_completion)
  obtain t1 s1 where r1: "GetNewTask u0 s ?tr now_c now = Inr (t1, s1)"
    using GetNewTask_total by blast
  have b: "(if type t1 = Plot then otherUnits t1 else []) @ doneTraceUnits s1
        = doneTraceUnits s @ [u] \<and> completedTraces s1 = completedTraces s + 1"
    using GetNewTask_queues(1,5) [OF r1 refl] by (simp add: ctr)
  obtain t2 s2 where r2: "GetNewTask u0 s ?pl now_c now = Inr (t2, s2)"
    using GetNewTask_total by blast
  have c: "(if type t2 = Trace then [unit t2] else []) @ availableTraceUnits s2
        = availableTraceUnits s @ rev others \<and>
      (if type t2 = Gather then otherUnits t2 else []) @ donePlotUnits s2
        = donePlotUnits s @ [u]"
    using GetNewTask_queues(2,3) [OF r2 refl] by (simp add: cpl)
  obtain t3 s3 where r3: "GetNewTask u0 s ?ga now_c now = Inr (t3, s3)"
    using GetNewTask_total by blast
  have d: "(if type t3 = Plot then [unit t3] else []) @ availablePlotUnits s3
        = availablePlotUnits s @ rev others \<and> imageChanged s3"
    using GetNewTask_queues(4,6) [OF r3 refl] by (simp add: cga)
  from a b c d r1 r2 r3 ctr cpl cga show ?thesis
    by blast
qed

section \<open>The performance window\<close>

lemma store_measurement_window:
  "store_measurement (drop (length h - 512) h) x = drop (length (h @ [x]) - 512) (h @ [x])"
proof (cases "length h < 512")
  case True
  then show ?thesis
    by (simp add: store_measurement_def)
next
  case False
  then have "drop (length h - 512) h \<noteq> []" and "Suc (length h) - 512 = Suc (length h - 512)"
    by auto
  with False show ?thesis
    by (simp add: store_measurement_def Let_def drop_Suc tl_drop tl_append2)
qed

lemma performance_CompleteTask:
  "performance (CompleteTask s c now_c) =
     (if type c = Tonemap then store_measurement (performance s) (batchesPerSecond s now_c)
      else performance s)"
  by (cases "type c")
     (simp_all add: CompleteTask_def CompleteTraceTask_def CompletePlotTask_def
      CompleteGatherTask_def CompleteTonemapTask_def)

lemma performance_GetNewTask:
  assumes "GetNewTask u0 s c now_c now = Inr (t, s')"
  shows "performance s' = performance (CompleteTask s c now_c)"
  using assms refl
  by (rule GetNewTask_cases) simp_all

lemma run_window:
  "performance s = drop (length h - 512) h \<Longrightarrow>
   \<exists>s'. run u0 s calls = Inr s' \<and>
        performance s' =
          drop (length (h @ measured u0 s calls) - 512) (h @ measured u0 s calls)"
proof (induction calls arbitrary: s h)
  case Nil
  then show ?case by simp
next
  case (Cons call calls)
  obtain c now_c now where call: "call = (c, now_c, now)"
    by (cases call)
  obtain t s1 where r: "GetNewTask u0 s c now_c now = Inr (t, s1)"
    using GetNewTask_total by blast
  define h1 where "h1 = h @ (if type c = Tonemap then [batchesPerSecond s now_c] else [])"
  have "performance s1 = drop (length h1 - 512) h1"
    using Cons.prems
    by (simp add: performance_GetNewTask [OF r] performance_CompleteTask h1_def
        store_measurement_window del: length_append)
  from Cons.IH [OF this, of ] obtain s' where
    "run u0 s1 calls = Inr s'"
    "performance s' = drop (length (h1 @ measured u0 s1 calls) - 512) (h1 @ measured u0 s1 calls)"
    by blast
  then show ?case
    by (simp add: call r h1_def)
qed

lemma measured_length:
  "length (measured u0 s calls) = length (filter (\<lambda>(c, now_c, now). type c = Tonemap) calls)"
proof (induction calls arbitrary: s)
  case Nil
  then show ?case by simp
next
  case (Cons call calls)
  obtain c now_c now where call: "call = (c, now_c, now)"
    by (cases call)
  obtain t s1 where r: "GetNewTask u0 s c now_c now = Inr (t, s1)"
    using GetNewTask_total by blast
  show ?case
    by (simp add: call r Cons.IH)
qed

text \<open>
  Claim C8. From construction on, whatever calls are made, the performance window is the
  last 512 of the measurements produced by the tonemap completions so far (all of them
  while there are at most 512), so it never holds more than 512; there is one measurement
  for each completed tonemap task. After 600 tonemap completions that is the list without
  its first 88 entries, the measurements 89 to 600.
\<close>

theorem performance_window:
  assumes "TaskScheduler numberOfThreads now0 = Inr s"
  shows "\<exists>s'. run u0 s calls = Inr s' \<and>
           performance s' =
             drop (length (measured u0 s calls) - 512) (measured u0 s calls) \<and>
           length (performance s') = min 512 (length (measured u0 s calls)) \<and>
           length (measured u0 s calls) =
             length (filter (\<lambda>(c, now_c, now). type c = Tonemap) calls)"
proof -
  from assms have "performance s = drop (length ([]::measurement list) - 512) []"
    by (auto simp: TaskScheduler_def Let_def split: if_splits)
  from run_window [OF this, of u0 calls] obtain s' where
    "run u0 s calls = Inr s'"
    "performance s' = drop (length (measured u0 s calls) - 512) (measured u0 s calls)"
    by auto
  then show ?thesis
    by (auto simp: measured_length)
qed

lemma tonemap_first:
  "GetNewTask 0 cold_start \<lparr> type = Tonemap, unit = 0, otherUnits = [] \<rparr> 2000000000 2000000000 =
     Inr (\<lparr> type = Trace, unit = 0, otherUnits = [] \<rparr>,
          cold_start\<lparr> lastTonemapTime := 2000000000,
                      availableTraceUnits := [1, 2, 3, 4, 5],
                      performance := [Quotient 0] \<rparr>)"
  by (simp add: GetNewTask_def CompleteTask_def CompleteTonemapTask_def store_measurement_def
      batchesPerSecond_def to_milliseconds_def cold_start_def dispatch_work_def
      tonemappingInterval_def CreateTraceTask_front)

theorem performance_window_witness:
  "TaskScheduler 2 0 = Inr cold_start \<and>
   (\<exists>s'. run 0 cold_start
            [(\<lparr> type = Tonemap, unit = 0, otherUnits = [] \<rparr>, 2000000000, 2000000000)] = Inr s' \<and>
         performance s' = [Quotient 0] \<and> length (performance s') = 1)"
proof -
  have m: "measured 0 cold_start
            [(\<lparr> type = Tonemap, unit = 0, otherUnits = [] \<rparr>, 2000000000, 2000000000)] =
           [Quotient 0]"
    by (simp add: tonemap_first)
       (simp add: batchesPerSecond_def to_milliseconds_def cold_start_def)
  from performance_window [OF TaskScheduler_2, of 0
      "[(\<lparr> type = Tonemap, unit = 0, otherUnits = [] \<rparr>, 2000000000, 2000000000)]"]
  show ?thesis
    unfolding m by (simp add: TaskScheduler_2)
qed

section \<open>Conservation of units\<close>

lemma mset_units_remove1:
  "c \<in> set ts \<Longrightarrow>
   mset (concat (map f (remove1 c ts))) + mset (f c) = mset (concat (map f ts))"
  by (induction ts) auto

lemma units_remove1_Nil:
  "f c = [] \<Longrightarrow> mset (concat (map f (remove1 c ts))) = mset (concat (map f ts))"
  by (induction ts) auto

lemma trace_units_complete:
  assumes "conforming \<lparr> sched = s, inflight = ts \<rparr> c"
  shows "mset (availableTraceUnits (CompleteTask s c now_c))
         + mset (doneTraceUnits (CompleteTask s c now_c))
         + mset (concat (map trace_units_of (remove1 c ts)))
       = mset (availableTraceUnits s) + mset (doneTraceUnits s)
         + mset (concat (map trace_units_of ts))"
proof (cases "type c")
  case Sleep
  then show ?thesis
    by (simp add: CompleteTask_def units_remove1_Nil trace_units_of_def)
next
  case Trace
  with assms have "c \<in> set ts"
    by (simp add: conforming_def)
  from mset_units_remove1 [OF this, of trace_units_of, symmetric] Trace show ?thesis
    by (simp add: CompleteTask_def CompleteTraceTask_def trace_units_of_def)
next
  case Plot
  with assms have "c \<in> set ts"
    by (simp add: conforming_def)
  from mset_units_remove1 [OF this, of trace_units_of, symmetric] Plot show ?thesis
    by (simp add: CompleteTask_def CompletePlotTask_def push_from_back_rev trace_units_of_def)
next
  case Gather
  then show ?thesis
    by (simp add: CompleteTask_def CompleteGatherTask_def units_remove1_Nil trace_units_of_def)
next
  case Tonemap
  then show ?thesis
    by (simp add: CompleteTask_def CompleteTonemapTask_def units_remove1_Nil trace_units_of_def)
qed

lemma plot_units_complete:
  assumes "conforming \<lparr> sched = s, inflight = ts \<rparr> c"
  shows "mset (availablePlotUnits (CompleteTask s c now_c))
         + mset (donePlotUnits (CompleteTask s c now_c))
         + mset (concat (map plot_units_of (remove1 c ts)))
       = mset (availablePlotUnits s) + mset (donePlotUnits s)
         + mset (concat (map plot_units_of ts))"
proof (cases "type c")
  case Sleep
  then show ?thesis
    by (simp add: CompleteTask_def units_remove1_Nil plot_units_of_def)
next
  case Trace
  then show ?thesis
    by (simp add: CompleteTask_def CompleteTraceTask_def units_remove1_Nil plot_units_of_def)
next
  case Plot
  with assms have "c \<in> set ts"
    by (simp add: conforming_def)
  from mset_units_remove1 [OF this, of plot_units_of, symmetric] Plot show ?thesis
    by (simp add: CompleteTask_def CompletePlotTask_def plot_units_of_def)
next
  case Gather
  with assms have "c \<in> set ts"
    by (simp add: conforming_def)
  from mset_units_remove1 [OF this, of plot_units_of, symmetric] Gather show ?thesis
    by (simp add: CompleteTask_def CompleteGatherTask_def push_from_back_rev plot_units_of_def)
next
  case Tonemap
  then show ?thesis
    by (simp add: CompleteTask_def CompleteTonemapTask_def units_remove1_Nil plot_units_of_def)
qed

lemma mset_take_drop: "mset (take n xs) + mset (drop n xs) = mset xs"
  by (metis append_take_drop_id mset_append)

lemma mset_hd_tl: "xs \<noteq> [] \<Longrightarrow> add_mset (hd xs) (mset (tl xs)) = mset xs"
  by (cases xs) simp_all

lemma trace_units_dispatch:
  assumes "GetNewTask u0 s0 c now_c now = Inr (t, s')" and "s = CompleteTask s0 c now_c"
  shows "mset (availableTraceUnits s') + mset (doneTraceUnits s')
         + mset (concat (map trace_units_of (hold t ts)))
       = mset (availableTraceUnits s) + mset (doneTraceUnits s)
         + mset (concat (map trace_units_of ts))"
  using assms
proof (cases rule: GetNewTask_cases)
  case Plot
  then show ?thesis
    using mset_take_drop [of "plot_count (length (doneTraceUnits s))" "doneTraceUnits s"]
    by (simp add: hold_def trace_units_of_def ac_simps)
next
  case Trace
  then show ?thesis
    using mset_hd_tl [of "availableTraceUnits s"]
    by (simp add: hold_def trace_units_of_def)
qed (simp_all add: hold_def trace_units_of_def)

lemma plot_units_dispatch:
  assumes "GetNewTask u0 s0 c now_c now = Inr (t, s')" and "s = CompleteTask s0 c now_c"
  shows "mset (availablePlotUnits s') + mset (donePlotUnits s')
         + mset (concat (map plot_units_of (hold t ts)))
       = mset (availablePlotUnits s) + mset (donePlotUnits s)
         + mset (concat (map plot_units_of ts))"
  using assms
proof (cases rule: GetNewTask_cases)
  case Plot
  then show ?thesis
    using mset_hd_tl [of "availablePlotUnits s"]
    by (simp add: hold_def plot_units_of_def)
qed (simp_all add: hold_def plot_units_of_def)

lemma worker_call_units:
  assumes "conforming sys c" and "worker_call u0 sys c now_c now = Inr sys'"
  shows "mset (availableTraceUnits (sched sys')) + mset (doneTraceUnits (sched sys'))
           + mset (inflightTraceUnits sys')
         = mset (availableTraceUnits (sched sys)) + mset (doneTraceUnits (sched sys))
           + mset (inflightTraceUnits sys)"
    and "mset (availablePlotUnits (sched sys')) + mset (donePlotUnits (sched sys'))
           + mset (inflightPlotUnits sys')
         = mset (availablePlotUnits (sched sys)) + mset (donePlotUnits (sched sys))
           + mset (inflightPlotUnits sys)"
    and "numberOfTraceUnits (sched sys') = numberOfTraceUnits (sched sys)"
    and "numberOfPlotUnits (sched sys') = numberOfPlotUnits (sched sys)"
proof -
  obtain t s' where r: "GetNewTask u0 (sched sys) c now_c now = Inr (t, s')"
    using GetNewTask_total by blast
  with assms(2) have sys': "sys' = \<lparr> sched = s', inflight = hold t (remove1 c (inflight sys)) \<rparr>"
    by (simp add: worker_call_def)
  have conf: "conforming \<lparr> sched = sched sys, inflight = inflight sys \<rparr> c"
    using assms(1) by (simp add: conforming_def)
  show "mset (availableTraceUnits (sched sys')) + mset (doneTraceUnits (sched sys'))
           + mset (inflightTraceUnits sys')
         = mset (availableTraceUnits (sched sys)) + mset (doneTraceUnits (sched sys))
           + mset (inflightTraceUnits sys)"
    using trace_units_dispatch [OF r refl, of "remove1 c (inflight sys)"]
      trace_units_complete [OF conf, of now_c]
    by (simp add: sys' inflightTraceUnits_def)
  show "mset (availablePlotUnits (sched sys')) + mset (donePlotUnits (sched sys'))
           + mset (inflightPlotUnits sys')
         = mset (availablePlotUnits (sched sys)) + mset (donePlotUnits (sched sys))
           + mset (inflightPlotUnits sys)"
    using plot_units_dispatch [OF r refl, of "remove1 c (inflight sys)"]
      plot_units_complete [OF conf, of now_c]
    by (simp add: sys' inflightPlotUnits_def)
  have n: "numberOfTraceUnits (CompleteTask (sched sys) c now_c) = numberOfTraceUnits (sched sys)
         \<and> numberOfPlotUnits (CompleteTask (sched sys) c now_c) = numberOfPlotUnits (sched sys)"
    by (cases "type c")
       (simp_all add: CompleteTask_def CompleteTraceTask_def CompletePlotTask_def
        CompleteGatherTask_def CompleteTonemapTask_def)
  from r refl have "numberOfTraceUnits s' = numberOfTraceUnits (CompleteTask (sched sys) c now_c)
         \<and> numberOfPlotUnits s' = numberOfPlotUnits (CompleteTask (sched sys) c now_c)"
    by (rule GetNewTask_cases) simp_all
  with n show "numberOfTraceUnits (sched sys') = numberOfTraceUnits (sched sys)"
    and "numberOfPlotUnits (sched sys') = numberOfPlotUnits (sched sys)"
    by (simp_all add: sys')
qed

lemma reachable_units:
  assumes "reachable sys"
  shows "mset (availableTraceUnits (sched sys)) + mset (doneTraceUnits (sched sys))
           + mset (inflightTraceUnits sys)
         = mset [0..int (numberOfTraceUnits (sched sys)) - 1]
       \<and> mset (availablePlotUnits (sched sys)) + mset (donePlotUnits (sched sys))
           + mset (inflightPlotUnits sys)
         = mset [0..int (numberOfPlotUnits (sched sys)) - 1]"
  using assms
proof (induction rule: reachable.induct)
  case (start numberOfThreads now s)
  then show ?case
    by (auto simp: TaskScheduler_def Let_def push_indices_upto inflightTraceUnits_def
        inflightPlotUnits_def split: if_splits)
next
  case (call sys c u0 now_c now sys')
  with worker_call_units [OF call.hyps(2,3)] show ?case
    by simp
qed

lemma exec_reachable:
  "reachable sys \<Longrightarrow> exec u0 sys calls = Some sys' \<Longrightarrow> reachable sys'"
proof (induction calls arbitrary: sys)
  case Nil
  then show ?case by simp
next
  case (Cons call calls)
  obtain c now_c now where call: "call = (c, now_c, now)"
    by (cases call)
  from Cons.prems(2) obtain sys1 where
    "conforming sys c" "worker_call u0 sys c now_c now = Inr sys1" "exec u0 sys1 calls = Some sys'"
    by (auto simp: call split: if_splits sum.splits)
  with Cons.IH [of sys1] Cons.prems(1) show ?case
    by (blast intro: reachable.call)
qed

lemmas eval_defs =
  worker_call_def conforming_def hold_def GetNewTask_def CompleteTask_def
  CompleteTraceTask_def CompletePlotTask_def CompleteGatherTask_def CompleteTonemapTask_def
  push_from_back_rev store_measurement_def batchesPerSecond_def to_milliseconds_def
  dispatch_work_def tonemappingInterval_def CreateTraceTask_front CreatePlotTask_front
  CreateGatherTask_all CreateTonemapTask_def CreateSleepTask_def plot_count_def

lemma exec_plot_calls:
  "exec 0 \<lparr> sched = cold_start, inflight = [] \<rparr> plot_calls = Some plotting"
  by (simp add: plot_calls_def plotting_def cold_start_def trace_task_def plot01_def eval_defs)

lemma exec_gathering:
  "exec 0 plotting [(plot01, 31000000000, 31000000000)] = Some gathering"
  by (simp add: gathering_def plotting_def cold_start_def gather0_def plot01_def eval_defs)

lemma reachable_plotting: "reachable plotting"
  using reachable.start [OF TaskScheduler_2] exec_plot_calls
  by (rule exec_reachable)

lemma reachable_gathering: "reachable gathering"
  using reachable_plotting exec_gathering
  by (rule exec_reachable)

text \<open>
  Claim C3. In every state that calls of conforming workers reach from the constructed
  scheduler, the trace units in \<open>availableTraceUnits\<close>, in \<open>doneTraceUnits\<close> and held by
  tasks in flight number \<open>numberOfTraceUnits\<close> together, and every index from 0 up to
  that number is in exactly one of the three places, once; likewise for the plot units.
\<close>

theorem unit_conservation:
  assumes "reachable sys"
  shows "length (availableTraceUnits (sched sys)) + length (doneTraceUnits (sched sys))
           + length (inflightTraceUnits sys) = numberOfTraceUnits (sched sys) \<and>
         length (availablePlotUnits (sched sys)) + length (donePlotUnits (sched sys))
           + length (inflightPlotUnits sys) = numberOfPlotUnits (sched sys) \<and>
         distinct (availableTraceUnits (sched sys) @ doneTraceUnits (sched sys)
                   @ inflightTraceUnits sys) \<and>
         set (availableTraceUnits (sched sys) @ doneTraceUnits (sched sys)
              @ inflightTraceUnits sys) = {0..<int (numberOfTraceUnits (sched sys))} \<and>
         distinct (availablePlotUnits (sched sys) @ donePlotUnits (sched sys)
                   @ inflightPlotUnits sys) \<and>
         set (availablePlotUnits (sched sys) @ donePlotUnits (sched sys)
              @ inflightPlotUnits sys) = {0..<int (numberOfPlotUnits (sched sys))}"
proof -
  let ?tr = "availableTraceUnits (sched sys) @ doneTraceUnits (sched sys) @ inflightTraceUnits sys"
  let ?pl = "availablePlotUnits (sched sys) @ donePlotUnits (sched sys) @ inflightPlotUnits sys"
  from reachable_units [OF assms]
  have tr: "mset ?tr = mset [0..int (numberOfTraceUnits (sched sys)) - 1]"
    and pl: "mset ?pl = mset [0..int (numberOfPlotUnits (sched sys)) - 1]"
    by (simp_all add: ac_simps)
  have "length ?tr = numberOfTraceUnits (sched sys)" "length ?pl = numberOfPlotUnits (sched sys)"
    using mset_eq_length [OF tr] mset_eq_length [OF pl] by simp_all
  moreover have "distinct ?tr" "distinct ?pl"
    using mset_eq_imp_distinct_iff [OF tr] mset_eq_imp_distinct_iff [OF pl] by simp_all
  moreover have "set ?tr = {0..<int (numberOfTraceUnits (sched sys))}"
    "set ?pl = {0..<int (numberOfPlotUnits (sched sys))}"
    using mset_eq_setD [OF tr] mset_eq_setD [OF pl] by auto
  ultimately show ?thesis
    by simp
qed

theorem unit_conservation_witness:
  "reachable plotting \<and>
   availableTraceUnits (sched plotting) = [4, 5] \<and> doneTraceUnits (sched plotting) = [2, 3] \<and>
   inflightTraceUnits plotting = [0, 1] \<and> numberOfTraceUnits (sched plotting) = 6 \<and>
   availablePlotUnits (sched plotting) = [] \<and> donePlotUnits (sched plotting) = [] \<and>
   inflightPlotUnits plotting = [0] \<and> numberOfPlotUnits (sched plotting) = 1"
  using unit_conservation [OF reachable_plotting] reachable_plotting
  by (simp add: plotting_def cold_start_def plot01_def inflightTraceUnits_def
      inflightPlotUnits_def trace_units_of_def plot_units_of_def)

section \<open>The gather unit and the tonemap unit\<close>

lemma filter_pos: "c \<in> set ts \<Longrightarrow> P c \<Longrightarrow> 0 < length (filter P ts)"
  by (induction ts) auto

lemma length_filter_remove1:
  "length (filter P (remove1 c ts)) =
     length (filter P ts) - (if P c \<and> c \<in> set ts then 1 else 0)"
proof (induction ts)
  case Nil
  then show ?case by simp
next
  case (Cons a ts)
  show ?case
  proof (cases "a = c")
    case True
    then show ?thesis by simp
  next
    case False
    with Cons filter_pos [of c ts P] show ?thesis
      by auto
  qed
qed

lemma flags_complete:
  assumes "conforming \<lparr> sched = s, inflight = ts \<rparr> c"
    and "length (filter uses_gather_unit ts) = (if gatherUnitAvailable s then 0 else 1)"
    and "length (filter (\<lambda>t. type t = Tonemap) ts) = (if tonemapUnitAvailable s then 0 else 1)"
  shows "length (filter uses_gather_unit (remove1 c ts)) =
           (if gatherUnitAvailable (CompleteTask s c now_c) then 0 else 1)
       \<and> length (filter (\<lambda>t. type t = Tonemap) (remove1 c ts)) =
           (if tonemapUnitAvailable (CompleteTask s c now_c) then 0 else 1)"
proof (cases "type c")
  case Sleep
  with assms(2,3) show ?thesis
    by (simp add: CompleteTask_def length_filter_remove1 uses_gather_unit_def)
next
  case Trace
  with assms(2,3) show ?thesis
    by (simp add: CompleteTask_def CompleteTraceTask_def length_filter_remove1
        uses_gather_unit_def)
next
  case Plot
  with assms(2,3) show ?thesis
    by (simp add: CompleteTask_def CompletePlotTask_def length_filter_remove1
        uses_gather_unit_def)
next
  case Gather
  with assms(1) have c: "c \<in> set ts" "uses_gather_unit c"
    by (simp_all add: conforming_def uses_gather_unit_def)
  from filter_pos [of c ts uses_gather_unit] c assms(2) have "length (filter uses_gather_unit ts) = 1"
    by (simp split: if_splits)
  with c Gather assms(3) show ?thesis
    by (simp add: CompleteTask_def CompleteGatherTask_def length_filter_remove1)
next
  case Tonemap
  with assms(1) have c: "c \<in> set ts" "uses_gather_unit c"
    by (simp_all add: conforming_def uses_gather_unit_def)
  from filter_pos [of c ts uses_gather_unit] c assms(2) have g: "length (filter uses_gather_unit ts) = 1"
    by (simp split: if_splits)
  from filter_pos [of c ts "\<lambda>t. type t = Tonemap"] c(1) Tonemap assms(3)
  have "length (filter (\<lambda>t. type t = Tonemap) ts) = 1"
    by (simp split: if_splits)
  with g c Tonemap show ?thesis
    by (simp add: CompleteTask_def CompleteTonemapTask_def length_filter_remove1)
qed

lemma flags_dispatch:
  assumes "GetNewTask u0 s0 c now_c now = Inr (t, s')" and "s = CompleteTask s0 c now_c"
    and "length (filter uses_gather_unit ts) = (if gatherUnitAvailable s then 0 else 1)"
    and "length (filter (\<lambda>t. type t = Tonemap) ts) = (if tonemapUnitAvailable s then 0 else 1)"
  shows "length (filter uses_gather_unit (hold t ts)) =
           (if gatherUnitAvailable s' then 0 else 1)
       \<and> length (filter (\<lambda>t. type t = Tonemap) (hold t ts)) =
           (if tonemapUnitAvailable s' then 0 else 1)"
  using assms(1,2)
  by (cases rule: GetNewTask_cases)
     (use assms(3,4) in \<open>simp_all add: hold_def uses_gather_unit_def\<close>)

lemma reachable_flags:
  assumes "reachable sys"
  shows "length (filter uses_gather_unit (inflight sys)) =
           (if gatherUnitAvailable (sched sys) then 0 else 1)
       \<and> length (filter (\<lambda>t. type t = Tonemap) (inflight sys)) =
           (if tonemapUnitAvailable (sched sys) then 0 else 1)"
  using assms
proof (induction rule: reachable.induct)
  case (start numberOfThreads now s)
  then show ?case
    by (auto simp: TaskScheduler_def Let_def split: if_splits)
next
  case (call sys c u0 now_c now sys')
  obtain t s' where r: "GetNewTask u0 (sched sys) c now_c now = Inr (t, s')"
    using GetNewTask_total by blast
  with call.hyps(3) have sys': "sys' = \<lparr> sched = s', inflight = hold t (remove1 c (inflight sys)) \<rparr>"
    by (simp add: worker_call_def)
  have conf: "conforming \<lparr> sched = sched sys, inflight = inflight sys \<rparr> c"
    using call.hyps(2) by (simp add: conforming_def)
  from flags_complete [OF conf, of now_c] call.IH
  have "length (filter uses_gather_unit (remove1 c (inflight sys))) =
           (if gatherUnitAvailable (CompleteTask (sched sys) c now_c) then 0 else 1)
       \<and> length (filter (\<lambda>t. type t = Tonemap) (remove1 c (inflight sys))) =
           (if tonemapUnitAvailable (CompleteTask (sched sys) c now_c) then 0 else 1)"
    by blast
  with flags_dispatch [OF r refl, of "remove1 c (inflight sys)"] show ?case
    by (simp add: sys')
qed

text \<open>
  Claim C2, the counterexample. In the run for two threads the gather task \<open>gather0\<close> is
  in flight in the system \<open>gathering\<close>. A call that hands back a gather task that was
  never handed out makes \<open>gatherUnitAvailable\<close> true; the display refresh being due,
  that call is given a tonemap task while \<open>gather0\<close> is still held: a tonemap task and
  a gather task are in flight together.
\<close>

theorem Tonemap_beside_Gather:
  "reachable gathering \<and> inflight gathering = [gather0] \<and> type gather0 = Gather \<and>
   \<not> conforming gathering stray_gather \<and>
   worker_call 0 gathering stray_gather 31000000000 31000000000 =
     Inr \<lparr> sched = sched gathering\<lparr> tonemapUnitAvailable := False, imageChanged := True \<rparr>,
           inflight = [\<lparr> type = Tonemap, unit = 0, otherUnits = [] \<rparr>, gather0] \<rparr> \<and>
   length (filter uses_gather_unit
             [\<lparr> type = Tonemap, unit = 0, otherUnits = [] \<rparr>, gather0]) = 2"
  by (simp add: reachable_gathering)
     (simp add: gathering_def cold_start_def gather0_def stray_gather_def uses_gather_unit_def
      eval_defs)

lemma dispatch_guards:
  assumes "GetNewTask u0 s c now_c now = Inr (t, s')"
  shows "type t = Tonemap \<longrightarrow>
           gatherUnitAvailable (CompleteTask s c now_c) \<and>
           tonemapUnitAvailable (CompleteTask s c now_c) \<and>
           \<not> gatherUnitAvailable s' \<and> \<not> tonemapUnitAvailable s'"
    and "type t = Gather \<longrightarrow>
           gatherUnitAvailable (CompleteTask s c now_c) \<and> \<not> gatherUnitAvailable s'"
  using assms refl by (cases rule: GetNewTask_cases; simp)+

text \<open>
  Claim C2 as amended. In every state, whatever calls led to it, a call hands out a
  tonemap task only if \<open>gatherUnitAvailable\<close> and \<open>tonemapUnitAvailable\<close> are both
  true once the completion is applied, and a gather task only if \<open>gatherUnitAvailable\<close>
  is; handing out either makes \<open>gatherUnitAvailable\<close> false. In every state that calls
  of conforming workers reach from the constructed scheduler, at most one task that uses
  the gather unit (a gather or a tonemap task) is in flight, \<open>gatherUnitAvailable\<close> is
  false exactly while there is one, and \<open>tonemapUnitAvailable\<close> is false exactly while
  a tonemap task is in flight.
\<close>

theorem gather_tonemap_exclusive:
  "(GetNewTask u0 s c now_c now = Inr (t, s') \<and> type t = Tonemap \<longrightarrow>
      gatherUnitAvailable (CompleteTask s c now_c) \<and>
      tonemapUnitAvailable (CompleteTask s c now_c) \<and>
      \<not> gatherUnitAvailable s' \<and> \<not> tonemapUnitAvailable s') \<and>
   (GetNewTask u0 s c now_c now = Inr (t, s') \<and> type t = Gather \<longrightarrow>
      gatherUnitAvailable (CompleteTask s c now_c) \<and> \<not> gatherUnitAvailable s') \<and>
   (reachable sys \<longrightarrow>
      length (filter uses_gather_unit (inflight sys)) \<le> 1 \<and>
      (gatherUnitAvailable (sched sys) \<longleftrightarrow> filter uses_gather_unit (inflight sys) = []) \<and>
      (tonemapUnitAvailable (sched sys) \<longleftrightarrow>
         filter (\<lambda>t. type t = Tonemap) (inflight sys) = []))"
proof (intro conjI impI)
  assume "reachable sys"
  from reachable_flags [OF this]
  show "length (filter uses_gather_unit (inflight sys)) \<le> 1"
    and "gatherUnitAvailable (sched sys) \<longleftrightarrow> filter uses_gather_unit (inflight sys) = []"
    and "tonemapUnitAvailable (sched sys) \<longleftrightarrow>
           filter (\<lambda>t. type t = Tonemap) (inflight sys) = []"
    by (auto split: if_splits)
qed (use dispatch_guards in blast)+

lemma plotting_gathers:
  "GetNewTask 0 (sched plotting) plot01 31000000000 31000000000 = Inr (gather0, sched gathering)"
  by (simp add: gathering_def plotting_def cold_start_def gather0_def plot01_def eval_defs)

lemma gathering_tonemaps:
  "GetNewTask 0 (sched gathering) gather0 31000000000 31000000000 =
     Inr (\<lparr> type = Tonemap, unit = 0, otherUnits = [] \<rparr>,
          sched gathering\<lparr> availablePlotUnits := [0], imageChanged := True,
                            tonemapUnitAvailable := False \<rparr>)"
  by (simp add: gathering_def cold_start_def gather0_def eval_defs)

theorem gather_tonemap_exclusive_witness:
  "reachable gathering \<and>
   GetNewTask 0 (sched gathering) gather0 31000000000 31000000000 =
     Inr (\<lparr> type = Tonemap, unit = 0, otherUnits = [] \<rparr>,
          sched gathering\<lparr> availablePlotUnits := [0], imageChanged := True,
                            tonemapUnitAvailable := False \<rparr>) \<and>
   GetNewTask 0 (sched plotting) plot01 31000000000 31000000000 =
     Inr (gather0, sched gathering) \<and>
   filter uses_gather_unit (inflight gathering) = [gather0] \<and>
   \<not> gatherUnitAvailable (sched gathering) \<and>
   tonemapUnitAvailable (sched gathering) \<and>
   gatherUnitAvailable (CompleteTask (sched plotting) plot01 31000000000) \<and>
   gatherUnitAvailable (CompleteTask (sched gathering) gather0 31000000000) \<and>
   tonemapUnitAvailable (CompleteTask (sched gathering) gather0 31000000000)"
proof -
  have a: "filter uses_gather_unit (inflight gathering) = [gather0]"
    "\<not> gatherUnitAvailable (sched gathering)" "tonemapUnitAvailable (sched gathering)"
    "type gather0 = Gather"
    by (simp_all add: gathering_def cold_start_def gather0_def uses_gather_unit_def)
  from gather_tonemap_exclusive [of 0 "sched gathering" gather0 31000000000 31000000000
      "\<lparr> type = Tonemap, unit = 0, otherUnits = [] \<rparr>"
      "sched gathering\<lparr> availablePlotUnits := [0], imageChanged := True,
                            tonemapUnitAvailable := False \<rparr>" gathering]
    gather_tonemap_exclusive [of 0 "sched plotting" plot01 31000000000 31000000000
      gather0 "sched gathering" gathering]
    gathering_tonemaps plotting_gathers reachable_gathering a
  show ?thesis
    by simp
qed

section \<open>Completion of a gather task\<close>

lemma upto_0_11:
  "[0..11] = [0, 1, 2, 3, 4, 5, 6, 7, 8, 9, 10, (11::int)]" "[0..1] = [0, (1::int)]"
  by (simp_all add: upto_rec1)

lemma replicate_12: "replicate 12 x = [x, x, x, x, x, x, x, x, x, x, x, x]"
  by (simp add: numeral_eq_Suc)

lemma TaskScheduler_4: "TaskScheduler 4 0 = Inr four_threads"
  by (simp add: TaskScheduler_def int_div2_def four_threads_def push_indices_upto Let_def
      upto_0_11)

lemma exec_overtake_calls:
  "exec 0 \<lparr> sched = four_threads, inflight = [] \<rparr> overtake_calls = Some overtaken"
  by (simp add: overtake_calls_def overtaken_def four_threads_def trace_task_def gather0_def
      eval_defs replicate_12)

text \<open>
  Claim C4, the counterexample. In the run of the scheduler for four threads, the plot
  task on unit 1 completes after the gather task over plot unit 0 was handed out. When
  that gather task is then handed back by its worker, \<open>gatherUnitAvailable\<close> becomes
  true but \<open>donePlotUnits\<close> holds plot unit 1: it is not empty.
\<close>

theorem Gather_completion_donePlot_nonempty:
  "TaskScheduler 4 0 = Inr four_threads \<and>
   exec 0 \<lparr> sched = four_threads, inflight = [] \<rparr> overtake_calls = Some overtaken \<and>
   conforming overtaken gather0 \<and> type gather0 = Gather \<and>
   donePlotUnits (CompleteTask (sched overtaken) gather0 31000000000) = [1] \<and>
   gatherUnitAvailable (CompleteTask (sched overtaken) gather0 31000000000)"
  by (simp add: TaskScheduler_4 exec_overtake_calls)
     (simp add: overtaken_def conforming_def gather0_def CompleteTask_def CompleteGatherTask_def)

lemma donePlotUnits_CompleteTask:
  "donePlotUnits (CompleteTask s c now_c) =
     (if type c = Plot then donePlotUnits s @ [unit c] else donePlotUnits s)"
  by (cases "type c")
     (simp_all add: CompleteTask_def CompleteTraceTask_def CompletePlotTask_def
      CompleteGatherTask_def CompleteTonemapTask_def)

lemma donePlotUnits_stays_empty:
  assumes "GetNewTask u0 s c now_c now = Inr (t, s')" and "type c \<noteq> Plot"
    and "donePlotUnits s = []"
  shows "donePlotUnits s' = []"
  using assms(1) refl
  by (rule GetNewTask_cases) (use assms(2,3) in \<open>simp_all add: donePlotUnits_CompleteTask\<close>)

lemma run_donePlotUnits_empty:
  "run u0 s calls = Inr s' \<Longrightarrow> \<forall>call \<in> set calls. type (fst call) \<noteq> Plot \<Longrightarrow>
   donePlotUnits s = [] \<Longrightarrow> donePlotUnits s' = []"
proof (induction calls arbitrary: s)
  case Nil
  then show ?case by simp
next
  case (Cons call calls)
  obtain c now_c now where call: "call = (c, now_c, now)"
    by (cases call)
  obtain t s1 where r: "GetNewTask u0 s c now_c now = Inr (t, s1)"
    using GetNewTask_total by blast
  from Cons.prems(2) have "type c \<noteq> Plot"
    by (simp add: call)
  from donePlotUnits_stays_empty [OF r this Cons.prems(3)] have "donePlotUnits s1 = []" .
  moreover from Cons.prems(1) have "run u0 s1 calls = Inr s'"
    by (simp add: call r)
  ultimately show ?case
    using Cons.IH [of s1] Cons.prems(2) by simp
qed

lemma Gather_dispatch_drains:
  assumes "GetNewTask u0 s c now_c now = Inr (g, s1)" and "type g = Gather"
  shows "donePlotUnits s1 = []"
  using assms(1) refl
  by (rule GetNewTask_cases) (use assms(2) in simp_all)

text \<open>
  Whatever the calls between the dispatch and the completion of a gather task are,
  conforming or not: if none of them completes a plot task, \<open>donePlotUnits\<close> is empty
  after the completion.
\<close>

lemma Gather_completion_any_calls:
  assumes "GetNewTask u0 s0 c now0 now1 = Inr (g, s1)" and "type g = Gather"
    and "run u1 s1 calls = Inr s2"
  shows "donePlotUnits s1 = [] \<and>
         gatherUnitAvailable (CompleteTask s2 g now_c) \<and>
         imageChanged (CompleteTask s2 g now_c) \<and>
         donePlotUnits (CompleteTask s2 g now_c) = donePlotUnits s2 \<and>
         ((\<forall>call \<in> set calls. type (fst call) \<noteq> Plot) \<longrightarrow>
            donePlotUnits (CompleteTask s2 g now_c) = [])"
proof -
  have d: "donePlotUnits s1 = []"
    using assms(1,2) by (rule Gather_dispatch_drains)
  have "donePlotUnits s2 = []" if "\<forall>call \<in> set calls. type (fst call) \<noteq> Plot"
    using run_donePlotUnits_empty [OF assms(3) that d] .
  with d assms(2) show ?thesis
    by (simp add: CompleteTask_def CompleteGatherTask_def)
qed

lemma filter_unique:
  assumes "length (filter P xs) = 1" and "a \<in> set xs" and "P a" and "b \<in> set xs" and "P b"
  shows "a = b"
proof -
  from assms(1) obtain x where x: "filter P xs = [x]"
    by (cases "filter P xs") auto
  from assms(2-5) have "a \<in> set (filter P xs)" "b \<in> set (filter P xs)"
    by simp_all
  then show ?thesis
    unfolding x by simp
qed

lemma gatherUnitAvailable_CompleteTask:
  "type c \<noteq> Gather \<Longrightarrow> type c \<noteq> Tonemap \<Longrightarrow>
   gatherUnitAvailable (CompleteTask s c now_c) = gatherUnitAvailable s"
  by (cases "type c")
     (simp_all add: CompleteTask_def CompleteTraceTask_def CompletePlotTask_def)

lemma held_gather_step:
  assumes "reachable sys" and "g \<in> set (inflight sys)" and "type g = Gather"
    and "conforming sys c" and "c \<noteq> g" and "worker_call u0 sys c now_c now = Inr sys'"
  shows "g \<in> set (inflight sys')"
    and "donePlotUnits (sched sys') =
           donePlotUnits (sched sys) @ (if type c = Plot then [unit c] else [])"
proof -
  obtain t s' where r: "GetNewTask u0 (sched sys) c now_c now = Inr (t, s')"
    using GetNewTask_total by blast
  with assms(6) have sys': "sys' = \<lparr> sched = s', inflight = hold t (remove1 c (inflight sys)) \<rparr>"
    by (simp add: worker_call_def)
  have g: "uses_gather_unit g"
    using assms(3) by (simp add: uses_gather_unit_def)
  from reachable_flags [OF assms(1)] filter_pos [of g "inflight sys" uses_gather_unit] assms(2) g
  have busy: "\<not> gatherUnitAvailable (sched sys)"
    and one: "length (filter uses_gather_unit (inflight sys)) = 1"
    by (auto split: if_splits)
  have c: "type c \<noteq> Gather \<and> type c \<noteq> Tonemap"
  proof (rule ccontr)
    assume "\<not> ?thesis"
    then have "uses_gather_unit c" and "c \<in> set (inflight sys)"
      using assms(4) by (auto simp: uses_gather_unit_def conforming_def)
    with filter_unique [OF one assms(2) g] assms(5) show False
      by blast
  qed
  then have busy1: "\<not> gatherUnitAvailable (CompleteTask (sched sys) c now_c)"
    using busy by (simp add: gatherUnitAvailable_CompleteTask)
  from r refl have "donePlotUnits s' = donePlotUnits (CompleteTask (sched sys) c now_c)"
    by (cases rule: GetNewTask_cases) (use busy1 in simp_all)
  then show "donePlotUnits (sched sys') =
           donePlotUnits (sched sys) @ (if type c = Plot then [unit c] else [])"
    by (simp add: sys' donePlotUnits_CompleteTask)
  from assms(2,5) have "g \<in> set (remove1 c (inflight sys))"
    by simp
  then show "g \<in> set (inflight sys')"
    by (simp add: sys' hold_def)
qed

lemma held_gather_exec:
  "reachable sys1 \<Longrightarrow> g \<in> set (inflight sys1) \<Longrightarrow> type g = Gather \<Longrightarrow>
   exec u sys1 calls = Some sys2 \<Longrightarrow> g \<notin> fst ` set calls \<Longrightarrow>
   g \<in> set (inflight sys2) \<and>
   donePlotUnits (sched sys2) =
     donePlotUnits (sched sys1) @ map unit (filter (\<lambda>c. type c = Plot) (map fst calls))"
proof (induction calls arbitrary: sys1)
  case Nil
  then show ?case by simp
next
  case (Cons call calls)
  obtain c now_c now where call: "call = (c, now_c, now)"
    by (cases call)
  from Cons.prems(4) obtain sys' where
    step: "conforming sys1 c" "worker_call u sys1 c now_c now = Inr sys'"
    and rest: "exec u sys' calls = Some sys2"
    by (auto simp: call split: if_splits sum.splits)
  from Cons.prems(5) have ne: "c \<noteq> g" and notin: "g \<notin> fst ` set calls"
    by (auto simp: call)
  have r: "reachable sys'"
    using Cons.prems(1) step by (rule reachable.call)
  note h = held_gather_step [OF Cons.prems(1,2,3) step(1) ne step(2)]
  from Cons.IH [OF r h(1) Cons.prems(3) rest notin] h(2) show ?case
    by (simp add: call)
qed

text \<open>
  Claim C4 as amended. For conforming workers: handing out a gather task leaves
  \<open>donePlotUnits\<close> empty. When the gather task is completed, after any calls in between
  that do not hand it back, \<open>gatherUnitAvailable\<close> and \<open>imageChanged\<close> become true and
  \<open>donePlotUnits\<close> is left as it is: it holds exactly the units of the plot tasks
  completed in between, in the order of their completion, and so is empty when there
  were none.
\<close>

theorem Gather_completion:
  assumes "reachable sys" and "conforming sys c"
    and "GetNewTask u0 (sched sys) c now0 now1 = Inr (g, s1)" and "type g = Gather"
    and "sys1 = \<lparr> sched = s1, inflight = hold g (remove1 c (inflight sys)) \<rparr>"
    and "exec u1 sys1 calls = Some sys2" and "g \<notin> fst ` set calls"
  shows "donePlotUnits (sched sys1) = [] \<and>
         conforming sys2 g \<and>
         gatherUnitAvailable (CompleteTask (sched sys2) g now_c) \<and>
         imageChanged (CompleteTask (sched sys2) g now_c) \<and>
         donePlotUnits (CompleteTask (sched sys2) g now_c) = donePlotUnits (sched sys2) \<and>
         donePlotUnits (CompleteTask (sched sys2) g now_c) =
           map unit (filter (\<lambda>c. type c = Plot) (map fst calls)) \<and>
         ((\<forall>call \<in> set calls. type (fst call) \<noteq> Plot) \<longrightarrow>
            donePlotUnits (CompleteTask (sched sys2) g now_c) = [])"
proof -
  have w: "worker_call u0 sys c now0 now1 = Inr sys1"
    by (simp add: worker_call_def assms(3,5))
  have r1: "reachable sys1"
    using assms(1,2) w by (rule reachable.call)
  have d: "donePlotUnits (sched sys1) = []"
    using Gather_dispatch_drains [OF assms(3,4)] by (simp add: assms(5))
  have g1: "g \<in> set (inflight sys1)"
    using assms(4) by (simp add: assms(5) hold_def)
  from held_gather_exec [OF r1 g1 assms(4,6,7)] d
  have g2: "g \<in> set (inflight sys2)"
    and p: "donePlotUnits (sched sys2) = map unit (filter (\<lambda>c. type c = Plot) (map fst calls))"
    by simp_all
  have e: "filter (\<lambda>c. type c = Plot) (map fst calls) = []"
    if "\<forall>call \<in> set calls. type (fst call) \<noteq> Plot"
    using that by (induction calls) simp_all
  from d g2 p e assms(4) show ?thesis
    by (simp add: conforming_def CompleteTask_def CompleteGatherTask_def)
qed

lemma exec_two_plots:
  "exec 0 \<lparr> sched = four_threads, inflight = [] \<rparr>
     (replicate 12 (CreateSleepTask 0, 0, 0) @ [(trace_task 0, 0, 0), (trace_task 1, 0, 0)])
   = Some two_plots"
  by (simp add: two_plots_def plot_0_def plot_1_def four_threads_def trace_task_def
      eval_defs replicate_12)

lemma reachable_two_plots: "reachable two_plots"
  using reachable.start [OF TaskScheduler_4] exec_two_plots
  by (rule exec_reachable)

lemma two_plots_gathers:
  "GetNewTask 0 (sched two_plots) plot_0 31000000000 31000000000
     = Inr (gather0, sched gather_started)"
  by (simp add: two_plots_def gather_started_def plot_0_def plot_1_def gather0_def
      four_threads_def eval_defs)

lemma exec_gather_started:
  "exec 0 gather_started [(plot_1, 31000000000, 31000000000)] = Some overtaken"
  by (simp add: gather_started_def overtaken_def plot_1_def gather0_def
      four_threads_def trace_task_def eval_defs)

theorem Gather_completion_witness:
  "reachable two_plots \<and> conforming two_plots plot_0 \<and>
   GetNewTask 0 (sched two_plots) plot_0 31000000000 31000000000
     = Inr (gather0, sched gather_started) \<and>
   type gather0 = Gather \<and>
   gather_started =
     \<lparr> sched = sched gather_started,
       inflight = hold gather0 (remove1 plot_0 (inflight two_plots)) \<rparr> \<and>
   exec 0 gather_started [(plot_1, 31000000000, 31000000000)] = Some overtaken \<and>
   gather0 \<noteq> plot_1 \<and>
   donePlotUnits (sched gather_started) = [] \<and>
   conforming overtaken gather0 \<and>
   gatherUnitAvailable (CompleteTask (sched overtaken) gather0 32000000000) \<and>
   imageChanged (CompleteTask (sched overtaken) gather0 32000000000) \<and>
   donePlotUnits (CompleteTask (sched overtaken) gather0 32000000000) = [unit plot_1] \<and>
   unit plot_1 = 1"
proof -
  have c: "conforming two_plots plot_0"
    by (simp add: conforming_def two_plots_def)
  have ty: "type gather0 = Gather"
    by (simp add: gather0_def)
  have s: "gather_started =
     \<lparr> sched = sched gather_started,
       inflight = hold gather0 (remove1 plot_0 (inflight two_plots)) \<rparr>"
    by (simp add: gather_started_def two_plots_def hold_def gather0_def plot_0_def plot_1_def)
  have n: "gather0 \<notin> fst ` set [(plot_1, 31000000000 :: int, 31000000000 :: int)]"
    "gather0 \<noteq> plot_1" "type plot_1 = Plot" "unit plot_1 = 1"
    by (simp_all add: gather0_def plot_1_def)
  note th = Gather_completion [OF reachable_two_plots c two_plots_gathers ty s
      exec_gather_started n(1), of 32000000000]
  from th have a: "donePlotUnits (sched gather_started) = []"
    and b: "conforming overtaken gather0"
    and d: "gatherUnitAvailable (CompleteTask (sched overtaken) gather0 32000000000)"
    and e: "imageChanged (CompleteTask (sched overtaken) gather0 32000000000)"
    by blast+
  from th have "donePlotUnits (CompleteTask (sched overtaken) gather0 32000000000) =
      map unit (filter (\<lambda>c. type c = Plot)
        (map fst [(plot_1, 31000000000 :: int, 31000000000 :: int)]))"
    by blast
  then have f: "donePlotUnits (CompleteTask (sched overtaken) gather0 32000000000) = [unit plot_1]"
    by (simp add: n(3))
  from reachable_two_plots c two_plots_gathers ty s exec_gather_started n(2,4) a b d e f
  show ?thesis
    by blast
qed

end
